theory Spec2Isabelle
  imports Complex_Main
begin

section \<open>JavaScript numbers: IEEE 754 binary64\<close>

text \<open>
  Every \<open>number\<close> of \<open>VinylRemainingApp.tsx\<close> is a binary64 float. A value is
  \<open>NaN\<close>, one of the two infinities, or a finite rational \<open>Fin q\<close>. Arithmetic computes
  the exact rational result and rounds it to the nearest double, ties to even, with
  gradual underflow and overflow to infinity (\<open>rnd\<close>).

  The two zeros \<open>+0\<close> and \<open>-0\<close> are one value \<open>Fin 0\<close>: JavaScript tells them apart
  only when a zero is a divisor, and every divisor of the functions below is a positive
  constant or is guarded by \<open>tIn > 0\<close>; \<open>fdiv\<close> gives the quotient by \<open>+0\<close>.
\<close>

datatype f64 = NaN | PInf | NInf | Fin rat

definition pow2 :: "int \<Rightarrow> rat" where
  "pow2 e = (if 0 \<le> e then 2 ^ nat e else 1 / 2 ^ nat (- e))"

fun log2n :: "nat \<Rightarrow> nat" where
  "log2n n = (if n < 2 then 0 else Suc (log2n (n div 2)))"

declare log2n.simps [simp del]

text \<open>\<open>floor_log2 q\<close> is the binary exponent of a positive rational: the \<open>e\<close> with
  \<open>2^e \<le> q < 2^(e+1)\<close>.\<close>

definition floor_log2 :: "rat \<Rightarrow> int" where
  "floor_log2 q =
     (if 1 \<le> q then int (log2n (nat \<lfloor>q\<rfloor>))
      else - int (log2n (nat (\<lceil>1 / q\<rceil> - 1))) - 1)"

definition round_half_even :: "rat \<Rightarrow> int" where
  "round_half_even m =
     (let f = \<lfloor>m\<rfloor>; d = m - of_int f
      in if d < 1 / 2 then f else if 1 / 2 < d then f + 1
         else if even f then f else f + 1)"

text \<open>Rounding to binary64: 53 significant bits, least exponent \<open>-1022\<close> (below it the
  spacing stays \<open>2^-1074\<close>), and a rounded magnitude of \<open>2^1024\<close> or more is an infinity.\<close>

definition rnd :: "rat \<Rightarrow> f64" where
  "rnd q =
     (if q = 0 then Fin 0
      else let e = max (floor_log2 \<bar>q\<bar>) (- 1022) - 52;
               r = of_int (round_half_even (q / pow2 e)) * pow2 e
           in if pow2 1024 \<le> r then PInf
              else if r \<le> - pow2 1024 then NInf
              else Fin r)"

text \<open>A finite value is a double when rounding leaves it alone.\<close>

fun is_f64 :: "f64 \<Rightarrow> bool" where
  "is_f64 (Fin q) = (rnd q = Fin q)"
| "is_f64 _ = True"

fun is_neg :: "f64 \<Rightarrow> bool" where
  "is_neg NInf = True"
| "is_neg (Fin a) = (a < 0)"
| "is_neg _ = False"

fun fmul :: "f64 \<Rightarrow> f64 \<Rightarrow> f64" where
  "fmul NaN _ = NaN"
| "fmul _ NaN = NaN"
| "fmul (Fin a) (Fin b) = rnd (a * b)"
| "fmul x y =
     (if x = Fin 0 \<or> y = Fin 0 then NaN
      else if is_neg x = is_neg y then PInf else NInf)"

fun fsub :: "f64 \<Rightarrow> f64 \<Rightarrow> f64" where
  "fsub NaN _ = NaN"
| "fsub _ NaN = NaN"
| "fsub (Fin a) (Fin b) = rnd (a - b)"
| "fsub PInf PInf = NaN"
| "fsub NInf NInf = NaN"
| "fsub PInf _ = PInf"
| "fsub NInf _ = NInf"
| "fsub _ PInf = NInf"
| "fsub _ NInf = PInf"

fun fdiv :: "f64 \<Rightarrow> f64 \<Rightarrow> f64" where
  "fdiv NaN _ = NaN"
| "fdiv _ NaN = NaN"
| "fdiv (Fin a) (Fin b) =
     (if b = 0 then (if a = 0 then NaN else if 0 < a then PInf else NInf)
      else rnd (a / b))"
| "fdiv (Fin a) _ = Fin 0"
| "fdiv x (Fin b) = (if is_neg x = (b < 0) then PInf else NInf)"
| "fdiv _ _ = NaN"

text \<open>The comparisons \<open>x > y\<close> and \<open>x <= y\<close>: false as soon as one side is \<open>NaN\<close>.\<close>

fun fgt :: "f64 \<Rightarrow> f64 \<Rightarrow> bool" where
  "fgt NaN _ = False"
| "fgt _ NaN = False"
| "fgt (Fin a) (Fin b) = (b < a)"
| "fgt PInf y = (y \<noteq> PInf)"
| "fgt NInf _ = False"
| "fgt (Fin a) y = (y = NInf)"

fun fle :: "f64 \<Rightarrow> f64 \<Rightarrow> bool" where
  "fle NaN _ = False"
| "fle _ NaN = False"
| "fle (Fin a) (Fin b) = (a \<le> b)"
| "fle NInf _ = True"
| "fle _ PInf = True"
| "fle _ _ = False"

text \<open>\<open>x !== y\<close> on numbers: \<open>NaN\<close> differs from everything, itself included.\<close>

definition strict_ne :: "f64 \<Rightarrow> f64 \<Rightarrow> bool" where
  "strict_ne x y = (x = NaN \<or> y = NaN \<or> x \<noteq> y)"

text \<open>\<open>x === y\<close> on numbers: \<open>NaN\<close> equals nothing.\<close>

definition strict_eq :: "f64 \<Rightarrow> f64 \<Rightarrow> bool" where
  "strict_eq x y = (x \<noteq> NaN \<and> y \<noteq> NaN \<and> x = y)"

text \<open>\<open>!x\<close> on a number: true for zero and \<open>NaN\<close>.\<close>

definition falsy :: "f64 \<Rightarrow> bool" where
  "falsy x = (x = Fin 0 \<or> x = NaN)"

fun isFinite :: "f64 \<Rightarrow> bool" where
  "isFinite (Fin _) = True"
| "isFinite _ = False"

text \<open>\<open>Math.round\<close>: the nearest integer, a tie going towards \<open>+\<infinity>\<close>; the nearest
  integer of a double is a double.\<close>

fun Math_round :: "f64 \<Rightarrow> f64" where
  "Math_round (Fin q) = Fin (of_int \<lfloor>q + 1 / 2\<rfloor>)"
| "Math_round x = x"

text \<open>\<open>Math.PI\<close> is the double \<open>0x1.921fb54442d18p+1\<close>.\<close>

definition Math_PI :: f64 where
  "Math_PI = Fin (884279719003555 / 2 ^ 48)"

text \<open>\<open>Math.pow(10, d)\<close> for a natural \<open>d\<close>, correctly rounded (exact up to \<open>d = 22\<close>).\<close>

definition pow10 :: "nat \<Rightarrow> f64" where
  "pow10 d = rnd (10 ^ d)"

section \<open>The calculator\<close>

subsection \<open>Tiny utilities\<close>

datatype Unit = In | Mm

definition MM_PER_IN :: f64 where
  "MM_PER_IN = rnd (254 / 10)"

definition IN_PER_MM :: f64 where
  "IN_PER_MM = fdiv (Fin 1) (rnd (254 / 10))"

text \<open>\<open>round(v, d)\<close>; the source's default \<open>d = 3\<close> is written out by the callers.\<close>

definition round_to :: "f64 \<Rightarrow> nat \<Rightarrow> f64" where
  "round_to v d =
     (let p = pow10 d
      in fdiv (Math_round (fmul (if isFinite v then v else Fin 0) p)) p)"

definition toInches :: "f64 \<Rightarrow> Unit \<Rightarrow> f64" where
  "toInches v unit = (if unit = Mm then fmul v IN_PER_MM else v)"

definition toMM :: "f64 \<Rightarrow> Unit \<Rightarrow> f64" where
  "toMM v unit = (if unit = In then fmul v MM_PER_IN else v)"

definition unit_str :: "Unit \<Rightarrow> string" where
  "unit_str u = (case u of In \<Rightarrow> ''in'' | Mm \<Rightarrow> ''mm'')"

subsection \<open>Data\<close>

text \<open>The fields of \<open>SavedRoll\<close> carry the prefix \<open>r_\<close> where the component state or
  \<open>CalcResult\<close> has a field of the same name; the state's \<open>id\<close> is \<open>id'\<close> and the
  source's \<open>round\<close> is \<open>round_to\<close>, the plain names being constants of HOL.\<close>

record ThicknessPreset =
  name :: string
  thicknessIn :: f64

record SavedRoll =
  r_name :: string
  r_unit :: Unit
  r_od :: f64
  r_id :: f64
  r_thickness :: f64
  savedAt :: f64
  r_lengthIn :: f64
  r_lengthFt :: f64
  r_lengthM :: f64
  r_lengthYd :: f64

datatype CalcResult =
    Invalid (message: string)
  | Valid (lengthIn: f64) (lengthFt: f64) (lengthYd: f64) (lengthM: f64)

text \<open>The name of the fourth preset holds U+03BC, two bytes in UTF-8.\<close>

definition DEFAULT_PRESETS :: "ThicknessPreset list" where
  "DEFAULT_PRESETS =
     [\<lparr>name = ''Calendared 3 mil'', thicknessIn = rnd (3 / 1000)\<rparr>,
      \<lparr>name = ''Cast 2 mil'', thicknessIn = rnd (2 / 1000)\<rparr>,
      \<lparr>name = ''Laminate 1.5 mil'', thicknessIn = rnd (15 / 10000)\<rparr>,
      \<lparr>name = ''100 '' @ [CHR 0xCE, CHR 0xBC] @ ''m film'',
       thicknessIn = fmul (rnd (1 / 10)) IN_PER_MM\<rparr>]"

subsection \<open>Component state\<close>

text \<open>
  The state of \<open>VinylRemainingApp\<close> that the engine reads and writes. Each
  \<open>useEffect(() => store.set(key, v), [v])\<close> is the field \<open>writes\<close>: the calls of
  \<open>store.set\<close> issued since the first render, latest first (whether \<open>localStorage\<close>
  accepts a write is the browser's affair; the source ignores a failure).
\<close>

datatype stored =
    StoredNum f64
  | StoredPresets "ThicknessPreset list"
  | StoredRolls "SavedRoll list"

record app_state =
  unit :: Unit
  od :: f64
  id' :: f64
  thickness :: f64
  showPresetModal :: bool
  presets :: "ThicknessPreset list"
  savedRolls :: "SavedRoll list"
  writes :: "(string \<times> stored) list"

text \<open>A state setter given a number bails out on an unchanged value; a setter given a
  fresh array always re-renders, so its effect always runs. React compares with
  \<open>Object.is\<close>, which tells \<open>-0\<close> from \<open>+0\<close>: the two zeros being one value here, a
  thickness going from one zero to the other issues a \<open>store.set\<close> that \<open>writes\<close> does
  not record.\<close>

definition setThickness :: "f64 \<Rightarrow> app_state \<Rightarrow> app_state" where
  "setThickness v st =
     (if v = thickness st then st
      else st\<lparr>thickness := v,
              writes := (''vinylCalc.thickness'', StoredNum v) # writes st\<rparr>)"

definition setShowPresetModal :: "bool \<Rightarrow> app_state \<Rightarrow> app_state" where
  "setShowPresetModal b st = st\<lparr>showPresetModal := b\<rparr>"

definition setPresets ::
  "(ThicknessPreset list \<Rightarrow> ThicknessPreset list) \<Rightarrow> app_state \<Rightarrow> app_state" where
  "setPresets f st =
     (let next = f (presets st)
      in st\<lparr>presets := next,
             writes := (''vinylCalc.presets'', StoredPresets next) # writes st\<rparr>)"

definition setSavedRolls ::
  "(SavedRoll list \<Rightarrow> SavedRoll list) \<Rightarrow> app_state \<Rightarrow> app_state" where
  "setSavedRolls f st =
     (let next = f (savedRolls st)
      in st\<lparr>savedRolls := next,
             writes := (''vinylCalc.savedRolls'', StoredRolls next) # writes st\<rparr>)"

subsection \<open>Calculation (always in inches internally)\<close>

definition calc :: "f64 \<Rightarrow> f64 \<Rightarrow> f64 \<Rightarrow> Unit \<Rightarrow> CalcResult" where
  "calc od_v id_v thickness_v unit_v =
     (let odIn = toInches od_v unit_v;
          idIn = toInches id_v unit_v;
          tIn = toInches thickness_v unit_v
      in if \<not> fgt odIn idIn \<or> \<not> fgt tIn (Fin 0)
         then Invalid ''Check that OD > ID and thickness > 0''
         else
           let lengthIn_v =
                 fdiv (fmul Math_PI (fsub (fmul odIn odIn) (fmul idIn idIn)))
                      (fmul (Fin 4) tIn);
               lengthFt_v = fdiv lengthIn_v (Fin 12);
               lengthYd_v = fdiv lengthIn_v (Fin 36);
               lengthM_v = fmul lengthIn_v (rnd (254 / 10000))
           in Valid lengthIn_v lengthFt_v lengthYd_v lengthM_v)"

text \<open>The memoised \<open>calc\<close> of the component: \<open>calc\<close> at the current inputs.\<close>

definition calc_of :: "app_state \<Rightarrow> CalcResult" where
  "calc_of st = calc (od st) (id' st) (thickness st) (unit st)"

text \<open>The state of a first visit, when \<open>localStorage\<close> holds none of the keys: the
  defaults of the \<open>useState\<close> initialisers (\<open>unit = "in"\<close>).\<close>

definition initial_state :: app_state where
  "initial_state =
     \<lparr>unit = In, od = Fin 6, id' = round_to (fmul (Fin 85) IN_PER_MM) 3,
      thickness = rnd (3 / 1000), showPresetModal = False,
      presets = DEFAULT_PRESETS, savedRolls = [], writes = []\<rparr>"

subsection \<open>Presets\<close>

definition applyPreset :: "ThicknessPreset \<Rightarrow> app_state \<Rightarrow> app_state" where
  "applyPreset p st =
     (let t = thicknessIn p
      in setShowPresetModal False
           (setThickness
              (round_to (if unit st = Mm then fmul t MM_PER_IN else t)
                        (if unit st = Mm then 3 else 5))
              st))"

text \<open>\<open>fmt\<close> is \<open>Intl.NumberFormat\<close> with \<open>maximumFractionDigits\<close>, a function of the
  host's locale: a parameter. \<open>tValue\<close> is a number already, so \<open>Number(tValue)\<close> is
  \<open>tValue\<close>.\<close>

definition addPreset ::
  "(f64 \<Rightarrow> nat \<Rightarrow> string) \<Rightarrow> string \<Rightarrow> f64 \<Rightarrow> app_state \<Rightarrow> app_state" where
  "addPreset fmt name_v tValue st =
     (let tIn = toInches tValue (unit st)
      in if falsy tIn \<or> fle tIn (Fin 0) then st
         else setPresets
                (\<lambda>prev.
                   \<lparr>name =
                      (if name_v = []
                       then fmt (if unit st = Mm then fmul tIn (rnd (254 / 10)) else tIn) 3
                            @ '' '' @ unit_str (unit st)
                       else name_v),
                    thicknessIn = tIn\<rparr> # prev)
                st)"

text \<open>\<open>prev.filter((_, i) => i !== idx)\<close>: the index \<open>i\<close> runs over the naturals.\<close>

definition removePreset :: "f64 \<Rightarrow> app_state \<Rightarrow> app_state" where
  "removePreset idx st =
     setPresets
       (\<lambda>prev. map snd (filter (\<lambda>(i, _). strict_ne (Fin (of_nat i)) idx) (enumerate 0 prev)))
       st"

subsection \<open>History\<close>

fun nat_str :: "nat \<Rightarrow> string" where
  "nat_str n =
     (if n < 10 then [char_of (48 + n)]
      else nat_str (n div 10) @ [char_of (48 + n mod 10)])"

declare nat_str.simps [simp del]

text \<open>\<open>saveRoll(name?)\<close>. \<open>String.prototype.trim\<close> and the clock \<open>Date.now()\<close> are
  parameters; an absent name is \<open>None\<close>.\<close>

definition saveRoll ::
  "(string \<Rightarrow> string) \<Rightarrow> f64 \<Rightarrow> string option \<Rightarrow> app_state \<Rightarrow> app_state" where
  "saveRoll trim now name_opt st =
     (case calc_of st of
        Invalid _ \<Rightarrow> st
      | Valid lengthIn_v lengthFt_v lengthYd_v lengthM_v \<Rightarrow>
          let trimmed = (case name_opt of None \<Rightarrow> [] | Some n \<Rightarrow> trim n);
              entry =
                \<lparr>r_name =
                   (if trimmed = []
                    then ''Roll '' @ nat_str (length (savedRolls st) + 1)
                    else trimmed),
                 r_unit = unit st,
                 r_od = round_to (od st) 3,
                 r_id = round_to (id' st) 3,
                 r_thickness = round_to (thickness st) 5,
                 savedAt = now,
                 r_lengthIn = round_to lengthIn_v 2,
                 r_lengthFt = round_to lengthFt_v 2,
                 r_lengthM = round_to lengthM_v 2,
                 r_lengthYd = round_to lengthYd_v 2\<rparr>
          in setSavedRolls (\<lambda>prev. entry # prev) st)"

text \<open>The Delete button of the history row showing \<open>r\<close>. The repository holds two
  copies of the component, and their handlers differ. In
  \<open>src/components/VinylRemainingApp.tsx\<close>:
  \<open>setSavedRolls((prev) => prev.filter((sr) => sr.savedAt !== r.savedAt))\<close>.\<close>

definition deleteRoll :: "SavedRoll \<Rightarrow> app_state \<Rightarrow> app_state" where
  "deleteRoll r st =
     setSavedRolls (filter (\<lambda>sr. strict_ne (savedAt sr) (savedAt r))) st"

text \<open>In \<open>src/unnamed/part_002\<close>:
  \<open>const idx = savedRolls.findIndex((sr) => sr.savedAt === r.savedAt);
  if (idx >= 0) setSavedRolls(savedRolls.filter((_, i2) => i2 !== idx));\<close>
  \<open>Array.prototype.findIndex\<close> walks the array from index 0 and returns the first index
  that passes, or \<open>-1\<close>.\<close>

fun findIndex_from :: "nat \<Rightarrow> ('a \<Rightarrow> bool) \<Rightarrow> 'a list \<Rightarrow> int" where
  "findIndex_from k p [] = - 1"
| "findIndex_from k p (x # xs) = (if p x then int k else findIndex_from (Suc k) p xs)"

definition findIndex :: "('a \<Rightarrow> bool) \<Rightarrow> 'a list \<Rightarrow> int" where
  "findIndex p xs = findIndex_from 0 p xs"

definition deleteRoll_findIndex :: "SavedRoll \<Rightarrow> app_state \<Rightarrow> app_state" where
  "deleteRoll_findIndex r st =
     (let idx = findIndex (\<lambda>sr. strict_eq (savedAt sr) (savedAt r)) (savedRolls st)
      in if 0 \<le> idx
         then setSavedRolls
                (\<lambda>_. map snd (filter (\<lambda>(i2, _). int i2 \<noteq> idx) (enumerate 0 (savedRolls st))))
                st
         else st)"

subsection \<open>CSV helper\<close>

datatype error = RangeError

fun join_with :: "string \<Rightarrow> string list \<Rightarrow> string" where
  "join_with sep [] = []"
| "join_with sep [x] = x"
| "join_with sep (x # y # ys) = x @ sep @ join_with sep (y # ys)"

text \<open>One cell: every double quote doubled, the whole between double quotes.\<close>

definition csv_cell :: "string \<Rightarrow> string" where
  "csv_cell s =
     [CHR 0x22]
     @ concat (map (\<lambda>c. if c = CHR 0x22 then [CHR 0x22, CHR 0x22] else [c]) s)
     @ [CHR 0x22]"

definition csv_header :: "string list" where
  "csv_header =
     [''Saved At'', ''Name'', ''Unit'', ''OD'', ''ID'', ''Thickness'',
      ''Length_in'', ''Length_ft'', ''Length_m'', ''Length_yd'']"

text \<open>The cells of one row. \<open>Date.prototype.toISOString\<close> (which throws a
  \<open>RangeError\<close> on an invalid time value, here \<open>None\<close>) and the conversion of a number
  to a string are parameters.\<close>

definition csv_row ::
  "(f64 \<Rightarrow> string option) \<Rightarrow> (f64 \<Rightarrow> string) \<Rightarrow> SavedRoll \<Rightarrow> error + string list" where
  "csv_row toISOString num_str r =
     (case toISOString (savedAt r) of
        None \<Rightarrow> Inl RangeError
      | Some ts \<Rightarrow>
          Inr [ts,
               (if r_name r = [] then [] else r_name r),
               unit_str (r_unit r),
               num_str (r_od r),
               num_str (r_id r),
               num_str (r_thickness r),
               num_str (r_lengthIn r),
               num_str (r_lengthFt r),
               num_str (r_lengthM r),
               num_str (r_lengthYd r)])"

fun csv_rows ::
  "(SavedRoll \<Rightarrow> error + string list) \<Rightarrow> SavedRoll list \<Rightarrow> error + string list list" where
  "csv_rows f [] = Inr []"
| "csv_rows f (r # rs) =
     (case f r of
        Inl e \<Rightarrow> Inl e
      | Inr cells \<Rightarrow>
          (case csv_rows f rs of
             Inl e \<Rightarrow> Inl e
           | Inr rest \<Rightarrow> Inr (cells # rest)))"

definition toCSV ::
  "(f64 \<Rightarrow> string option) \<Rightarrow> (f64 \<Rightarrow> string) \<Rightarrow> SavedRoll list \<Rightarrow> error + string" where
  "toCSV toISOString num_str rows =
     (case csv_rows (csv_row toISOString num_str) rows of
        Inl e \<Rightarrow> Inl e
      | Inr data \<Rightarrow>
          Inr (join_with [CHR 0x0A]
                 (map (\<lambda>row. join_with '','' (map csv_cell row)) (csv_header # data))))"

section \<open>Reference definitions\<close>

text \<open>The specification writes \<open>x \<approx> v\<close> with \<open>v\<close> to two decimals: \<open>x\<close> is finite and
  within half a unit of the second decimal of \<open>v\<close>.\<close>

definition approx :: "f64 \<Rightarrow> rat \<Rightarrow> bool" where
  "approx x v = (case x of Fin q \<Rightarrow> \<bar>q - v\<bar> \<le> 5 / 1000 | _ \<Rightarrow> False)"

text \<open>The formula of the specification, \<open>\<pi> \<times> (od\<^sup>2 - id\<^sup>2) / (4 \<times> t)\<close>, on inches in
  binary64.\<close>

definition spec_lengthInches :: "f64 \<Rightarrow> f64 \<Rightarrow> f64 \<Rightarrow> f64" where
  "spec_lengthInches od_in id_in t_in =
     fdiv (fmul Math_PI (fsub (fmul od_in od_in) (fmul id_in id_in))) (fmul (Fin 4) t_in)"

text \<open>The \<open>remove(savedAt)\<close> of the specification: the first entry with that
  \<open>savedAt\<close> goes, every other entry stays.\<close>

fun spec_remove :: "f64 \<Rightarrow> SavedRoll list \<Rightarrow> SavedRoll list" where
  "spec_remove t [] = []"
| "spec_remove t (r # rs) = (if savedAt r = t then rs else r # spec_remove t rs)"

text \<open>"Positive and finite": a finite value above zero.\<close>

fun positive_finite :: "f64 \<Rightarrow> bool" where
  "positive_finite (Fin q) = (0 < q)"
| "positive_finite _ = False"

text \<open>A saved roll to run the history operations on.\<close>

definition example_roll :: "string \<Rightarrow> f64 \<Rightarrow> SavedRoll" where
  "example_roll n t =
     \<lparr>r_name = n, r_unit = In, r_od = Fin 6, r_id = Fin 3, r_thickness = rnd (3 / 1000),
      savedAt = t, r_lengthIn = Fin 1, r_lengthFt = Fin 1, r_lengthM = Fin 1, r_lengthYd = Fin 1\<rparr>"

section \<open>Facts about rounding\<close>

lemma log2n_bounds: "0 < n \<Longrightarrow> 2 ^ log2n n \<le> n \<and> n < 2 ^ Suc (log2n n)"
proof (induction n rule: log2n.induct)
  case (1 n)
  show ?case
  proof (cases "n < 2")
    case True
    with "1.prems" have "n = 1" by simp
    then show ?thesis by (simp add: log2n.simps)
  next
    case False
    then have pos: "0 < n div 2" by simp
    from "1.IH" [OF False pos]
    have lo: "2 ^ log2n (n div 2) \<le> n div 2" and hi: "n div 2 < 2 ^ Suc (log2n (n div 2))"
      by simp_all
    have eq: "log2n n = Suc (log2n (n div 2))"
      using False by (subst log2n.simps) simp
    from lo have "2 * 2 ^ log2n (n div 2) \<le> n" by linarith
    moreover from hi have "n < 2 * 2 ^ Suc (log2n (n div 2))" by linarith
    ultimately show ?thesis by (simp add: eq)
  qed
qed

lemma pow2_pos: "0 < pow2 e"
  by (simp add: pow2_def)

lemma pow2_Suc: "pow2 (e + 1) = 2 * pow2 e"
proof (cases "0 \<le> e")
  case True
  then show ?thesis by (simp add: pow2_def nat_add_distrib)
next
  case False
  then have "nat (- e) = Suc (nat (- (e + 1)))" by simp
  then show ?thesis using False by (simp add: pow2_def)
qed

lemma pow2_mono: "a \<le> b \<Longrightarrow> pow2 a \<le> pow2 b"
proof -
  have step: "pow2 a \<le> pow2 (a + int k)" for k
  proof (induction k)
    case 0
    then show ?case by simp
  next
    case (Suc k)
    have "pow2 (a + int (Suc k)) = 2 * pow2 (a + int k)"
      using pow2_Suc [of "a + int k"] by (simp add: algebra_simps)
    with Suc pow2_pos [of "a + int k"] show ?case by linarith
  qed
  assume "a \<le> b"
  then have "b = a + int (nat (b - a))" by simp
  then show ?thesis using step [of "nat (b - a)"] by simp
qed

lemma pow2_bracket_unique:
  assumes "pow2 a \<le> q" "q < pow2 (a + 1)" "pow2 b \<le> q" "q < pow2 (b + 1)"
  shows "a = b"
proof (rule ccontr)
  assume "a \<noteq> b"
  then consider "a + 1 \<le> b" | "b + 1 \<le> a" by linarith
  then show False
  proof cases
    case 1
    from pow2_mono [OF 1] assms show False by linarith
  next
    case 2
    from pow2_mono [OF 2] assms show False by linarith
  qed
qed

lemma pow2_le_of_nat: "2 ^ k \<le> (n::nat) \<Longrightarrow> (2::rat) ^ k \<le> of_nat n"
proof -
  assume "2 ^ k \<le> n"
  then have "(of_nat (2 ^ k) :: rat) \<le> of_nat n" by (rule of_nat_mono)
  then show ?thesis by simp
qed

lemma of_nat_Suc_le_pow2: "(n::nat) + 1 \<le> 2 ^ k \<Longrightarrow> of_nat n + 1 \<le> (2::rat) ^ k"
proof -
  assume "n + 1 \<le> 2 ^ k"
  then have "(of_nat (n + 1) :: rat) \<le> of_nat (2 ^ k)" by (rule of_nat_mono)
  then show ?thesis by simp
qed

lemma floor_log2_bounds:
  assumes "0 < q"
  shows "pow2 (floor_log2 q) \<le> q \<and> q < pow2 (floor_log2 q + 1)"
proof (cases "1 \<le> q")
  case True
  define n where "n = nat \<lfloor>q\<rfloor>"
  have n1: "0 < n" using True by (simp add: n_def)
  have fl: "floor_log2 q = int (log2n n)"
    using True by (simp add: floor_log2_def n_def)
  have "0 \<le> \<lfloor>q\<rfloor>" using True by simp
  then have nfl: "(of_nat n :: rat) = of_int \<lfloor>q\<rfloor>" by (simp add: n_def)
  have nq: "of_nat n \<le> q" "q < of_nat n + 1"
    unfolding nfl by linarith+
  from log2n_bounds [OF n1]
  have lo: "2 ^ log2n n \<le> n" and hi: "n + 1 \<le> 2 ^ Suc (log2n n)" by simp_all
  note lo' = pow2_le_of_nat [OF lo] and hi' = of_nat_Suc_le_pow2 [OF hi]
  have p1: "pow2 (int (log2n n)) = 2 ^ log2n n" by (simp add: pow2_def)
  have p2: "pow2 (int (log2n n) + 1) = 2 ^ Suc (log2n n)"
    by (simp add: pow2_def nat_add_distrib)
  show ?thesis unfolding fl p1 p2 using lo' hi' nq by linarith
next
  case False
  define r where "r = 1 / q"
  define m where "m = nat (\<lceil>r\<rceil> - 1)"
  have r1: "1 < r" using False assms by (simp add: r_def)
  then have c2: "2 \<le> \<lceil>r\<rceil>" by (simp add: le_ceiling_iff)
  have m1: "0 < m" using c2 by (simp add: m_def)
  have fl: "floor_log2 q = - int (log2n m) - 1"
    using False by (simp add: floor_log2_def m_def r_def)
  have mr: "of_nat m < r" "r \<le> of_nat m + 1"
  proof -
    have "of_int (\<lceil>r\<rceil> - 1) < r" by linarith
    moreover have "(of_nat m :: rat) = of_int (\<lceil>r\<rceil> - 1)"
      using c2 by (simp add: m_def)
    ultimately show "of_nat m < r" by simp
    have "r \<le> of_int \<lceil>r\<rceil>" by linarith
    moreover have "(of_nat m :: rat) + 1 = of_int \<lceil>r\<rceil>"
      using c2 by (simp add: m_def)
    ultimately show "r \<le> of_nat m + 1" by simp
  qed
  from log2n_bounds [OF m1]
  have lo: "2 ^ log2n m \<le> m" and hi: "m + 1 \<le> 2 ^ Suc (log2n m)" by simp_all
  have lo': "(2::rat) ^ log2n m < r"
    using pow2_le_of_nat [OF lo] mr by linarith
  have hi': "r \<le> (2::rat) ^ Suc (log2n m)"
    using of_nat_Suc_le_pow2 [OF hi] mr by linarith
  have q: "q = 1 / r" using assms by (simp add: r_def)
  have rpos: "0 < r" using r1 by simp
  have "nat (1 + int (log2n m)) = Suc (log2n m)" by simp
  then have p1: "pow2 (- int (log2n m) - 1) = 1 / 2 ^ Suc (log2n m)"
    by (simp add: pow2_def)
  have p2: "pow2 (- int (log2n m) - 1 + 1) = 1 / 2 ^ log2n m"
    by (simp add: pow2_def)
  have e1: "pow2 (floor_log2 q) = 1 / 2 ^ Suc (log2n m)"
    using p1 by (simp only: fl)
  have e2: "pow2 (floor_log2 q + 1) = 1 / 2 ^ log2n m"
    using p2 by (simp only: fl)
  have "1 / 2 ^ Suc (log2n m) \<le> 1 / r"
    using hi' rpos by (simp add: frac_le)
  moreover have "1 / r < 1 / 2 ^ log2n m"
    using lo' by (simp add: frac_less2)
  ultimately show ?thesis unfolding e1 e2 by (simp only: q)
qed

lemma floor_log2_eqI:
  assumes "pow2 e \<le> q" "q < pow2 (e + 1)"
  shows "floor_log2 q = e"
proof -
  have "0 < q" using assms(1) pow2_pos [of e] by linarith
  from floor_log2_bounds [OF this] assms show ?thesis
    using pow2_bracket_unique by blast
qed

lemma floor_rat_numeral:
  "\<lfloor>(numeral a :: rat) / numeral b\<rfloor> = numeral a div numeral b"
  using floor_divide_of_int_eq [of "numeral a" "numeral b", where ?'a = rat] by simp

lemma floor_rat_neg_numeral:
  "\<lfloor>- ((numeral a :: rat) / numeral b)\<rfloor> = - numeral a div numeral b"
  using floor_divide_of_int_eq [of "- numeral a" "numeral b", where ?'a = rat] by simp

text \<open>Rounding a rational of the normal range, once its binary exponent is known.\<close>

lemma rnd_eq_FinI:
  assumes "pow2 e \<le> \<bar>q\<bar>" and "\<bar>q\<bar> < pow2 (e + 1)" and "- 1022 \<le> e"
    and "round_half_even (q / pow2 (e - 52)) = n"
    and "r = of_int n * pow2 (e - 52)"
    and "\<bar>r\<bar> < pow2 1024"
  shows "rnd q = Fin r"
proof -
  have q0: "q \<noteq> 0" using assms(1) pow2_pos [of e] by auto
  have fl: "floor_log2 \<bar>q\<bar> = e" using assms(1,2) by (rule floor_log2_eqI)
  have mx: "max e (- 1022) - 52 = e - 52" using assms(3) by simp
  have "\<not> pow2 1024 \<le> r" "\<not> r \<le> - pow2 1024" using assms(6) by linarith+
  then show ?thesis
    using q0 assms(4,5) by (simp add: rnd_def fl mx Let_def)
qed

lemma pow2_add_nat: "pow2 (a + int n) = pow2 a * 2 ^ n"
proof (induction n)
  case 0
  then show ?case by simp
next
  case (Suc n)
  have "pow2 (a + int (Suc n)) = 2 * pow2 (a + int n)"
    using pow2_Suc [of "a + int n"] by (simp add: algebra_simps)
  with Suc show ?case by simp
qed

lemma pow2_add: "pow2 (a + b) = pow2 a * pow2 b"
proof (cases "0 \<le> b")
  case True
  then have "b = int (nat b)" by simp
  then have "pow2 (a + b) = pow2 a * 2 ^ nat b"
    using pow2_add_nat [of a "nat b"] by simp
  moreover have "pow2 b = 2 ^ nat b" using True by (simp add: pow2_def)
  ultimately show ?thesis by simp
next
  case False
  then have eq: "a + b + int (nat (- b)) = a" by simp
  have "pow2 a = pow2 (a + b + int (nat (- b)))" by (simp only: eq)
  also have "\<dots> = pow2 (a + b) * 2 ^ nat (- b)" by (rule pow2_add_nat)
  finally have "pow2 a = pow2 (a + b) * 2 ^ nat (- b)" .
  moreover have "pow2 b = 1 / 2 ^ nat (- b)" using False by (simp add: pow2_def)
  ultimately show ?thesis by simp
qed

lemma pow2_nat: "pow2 (int n) = 2 ^ n"
  by (simp add: pow2_def)

lemma pow2_split: "pow2 k = pow2 (k - j) * pow2 j"
  using pow2_add [of "k - j" j] by simp

lemma rhe_error: "\<bar>of_int (round_half_even x) - x\<bar> \<le> 1 / 2"
proof -
  define f where "f = \<lfloor>x\<rfloor>"
  have "of_int f \<le> x" "x < of_int f + 1" unfolding f_def by linarith+
  then show ?thesis
    unfolding round_half_even_def Let_def f_def [symmetric]
    by (auto simp: abs_if)
qed

lemma rhe_ge_int: "of_int k \<le> x \<Longrightarrow> k \<le> round_half_even x"
proof -
  assume "of_int k \<le> x"
  then have "k \<le> \<lfloor>x\<rfloor>" by (simp add: le_floor_iff)
  then show ?thesis by (auto simp: round_half_even_def Let_def)
qed

lemma rhe_le_int: "x \<le> of_int k \<Longrightarrow> round_half_even x \<le> k"
proof (cases "x = of_int k")
  case True
  then show ?thesis by (simp add: round_half_even_def Let_def)
next
  case False
  assume "x \<le> of_int k"
  with False have "x < of_int k" by simp
  then have "\<lfloor>x\<rfloor> < k" by (simp add: floor_less_iff)
  then show ?thesis by (auto simp: round_half_even_def Let_def)
qed

text \<open>Rounding in the normal range: the result sits on the grid of its binade, within
  half a grid step of the argument.\<close>

lemma rnd_normal:
  assumes "pow2 k \<le> q" and "q < pow2 (k + 1)" and "- 1022 \<le> k" and "k \<le> 1022"
  shows "\<exists>n. rnd q = Fin (of_int n * pow2 (k - 52)) \<and> 2 ^ 52 \<le> n \<and> n \<le> 2 ^ 53
             \<and> \<bar>of_int n * pow2 (k - 52) - q\<bar> \<le> pow2 (k - 53)
             \<and> n = round_half_even (q / pow2 (k - 52))"
proof -
  define g where "g = pow2 (k - 52)"
  define n where "n = round_half_even (q / g)"
  have gpos: "0 < g" by (simp add: g_def pow2_pos)
  have qpos: "0 < q" using assms(1) pow2_pos [of k] by linarith
  have k52: "pow2 k = 2 ^ 52 * g"
    using pow2_split [of k "k - 52"] by (simp add: g_def pow2_def)
  have k53: "pow2 (k + 1) = 2 ^ 53 * g"
    using pow2_Suc [of k] k52 by simp
  have g2: "g = 2 * pow2 (k - 53)"
    using pow2_Suc [of "k - 53"] by (simp add: g_def)
  have lo: "of_int (2 ^ 52) \<le> q / g"
    using assms(1) gpos by (simp add: k52 pos_le_divide_eq)
  have hi: "q / g \<le> of_int (2 ^ 53)"
    using assms(2) gpos by (simp add: k53 pos_divide_le_eq)
  have n_lo: "2 ^ 52 \<le> n" unfolding n_def using lo by (rule rhe_ge_int)
  have n_hi: "n \<le> 2 ^ 53" unfolding n_def using hi by (rule rhe_le_int)
  have "\<bar>of_int n - q / g\<bar> \<le> 1 / 2" unfolding n_def by (rule rhe_error)
  then have "\<bar>of_int n - q / g\<bar> * g \<le> 1 / 2 * g"
    using gpos by (simp add: mult_right_mono)
  moreover have "\<bar>of_int n - q / g\<bar> * g = \<bar>of_int n * g - q\<bar>"
  proof -
    have "of_int n * g - q = (of_int n - q / g) * g"
      using gpos by (simp add: field_simps)
    then show ?thesis using gpos by (simp add: abs_mult)
  qed
  ultimately have err: "\<bar>of_int n * g - q\<bar> \<le> pow2 (k - 53)"
    using g2 by simp
  have "of_int n * g \<le> 2 ^ 53 * g"
    using n_hi gpos by (simp add: mult_right_mono)
  also have "\<dots> = pow2 (k + 1)" by (simp add: k53)
  also have "\<dots> \<le> pow2 1023" using assms(4) by (intro pow2_mono) simp
  also have "\<dots> < pow2 1024" by (simp add: pow2_def)
  finally have fin: "of_int n * g < pow2 1024" .
  have nonneg: "0 \<le> of_int n * g" using n_lo gpos by simp
  have "rnd q = Fin (of_int n * g)"
  proof (rule rnd_eq_FinI [where e = k and n = n])
    show "pow2 k \<le> \<bar>q\<bar>" "\<bar>q\<bar> < pow2 (k + 1)" using assms(1,2) qpos by simp_all
    show "- 1022 \<le> k" by (rule assms(3))
    show "round_half_even (q / pow2 (k - 52)) = n" by (simp add: n_def g_def)
    show "of_int n * g = of_int n * pow2 (k - 52)" by (simp add: g_def)
    show "\<bar>of_int n * g\<bar> < pow2 1024" using fin nonneg by simp
  qed
  with n_lo n_hi err show ?thesis unfolding g_def n_def by blast
qed

lemma pow2_strict_mono: "a < b \<Longrightarrow> pow2 a < pow2 b"
proof -
  assume "a < b"
  then have "a + 1 \<le> b" by simp
  from pow2_mono [OF this] have "2 * pow2 a \<le> pow2 b" by (simp add: pow2_Suc)
  with pow2_pos [of a] show ?thesis by linarith
qed

lemma pow2_le_imp_le: "pow2 a \<le> pow2 b \<Longrightarrow> a \<le> b"
  using pow2_strict_mono [of b a] by (cases "a \<le> b") auto

lemma pow2_less_imp_less: "pow2 a < pow2 b \<Longrightarrow> a < b"
  using pow2_mono [of b a] by (cases "a < b") auto

lemma floor_log2_mono:
  assumes "0 < x" and "x \<le> y"
  shows "floor_log2 x \<le> floor_log2 y"
proof -
  have "0 < y" using assms by linarith
  from floor_log2_bounds [OF assms(1)] floor_log2_bounds [OF this] assms(2)
  have "pow2 (floor_log2 x) < pow2 (floor_log2 y + 1)" by linarith
  then have "floor_log2 x < floor_log2 y + 1" by (rule pow2_less_imp_less)
  then show ?thesis by simp
qed

lemma floor_log2_ge: "pow2 lo \<le> q \<Longrightarrow> lo \<le> floor_log2 q"
proof -
  assume a: "pow2 lo \<le> q"
  then have "0 < q" using pow2_pos [of lo] by linarith
  from floor_log2_bounds [OF this] a
  have "pow2 lo < pow2 (floor_log2 q + 1)" by linarith
  then have "lo < floor_log2 q + 1" by (rule pow2_less_imp_less)
  then show ?thesis by simp
qed

lemma floor_log2_le: "0 < q \<Longrightarrow> q \<le> pow2 hi \<Longrightarrow> floor_log2 q \<le> hi"
proof -
  assume "0 < q" and a: "q \<le> pow2 hi"
  from floor_log2_bounds [OF \<open>0 < q\<close>] a
  have "pow2 (floor_log2 q) \<le> pow2 hi" by linarith
  then show ?thesis by (rule pow2_le_imp_le)
qed

lemma floor_log2_less: "0 < q \<Longrightarrow> q < pow2 hi \<Longrightarrow> floor_log2 q < hi"
proof -
  assume "0 < q" and a: "q < pow2 hi"
  from floor_log2_bounds [OF \<open>0 < q\<close>] a
  have "pow2 (floor_log2 q) < pow2 hi" by linarith
  then show ?thesis by (rule pow2_less_imp_less)
qed

text \<open>Rounding keeps a value between two powers of two of the normal range.\<close>

lemma rnd_range:
  assumes "pow2 lo \<le> q" and "q \<le> pow2 hi" and "- 1022 \<le> lo" and "hi \<le> 1022"
  shows "\<exists>r. rnd q = Fin r \<and> pow2 lo \<le> r \<and> r \<le> pow2 hi"
proof -
  define k where "k = floor_log2 q"
  define g where "g = pow2 (k - 52)"
  have qpos: "0 < q" using assms(1) pow2_pos [of lo] by linarith
  have klo: "lo \<le> k" unfolding k_def using assms(1) by (rule floor_log2_ge)
  have khi: "k \<le> hi" unfolding k_def using qpos assms(2) by (rule floor_log2_le)
  have kb: "pow2 k \<le> q" "q < pow2 (k + 1)"
    using floor_log2_bounds [OF qpos] by (simp_all add: k_def)
  have gpos: "0 < g" by (simp add: g_def pow2_pos)
  have k52: "pow2 k = 2 ^ 52 * g"
    using pow2_split [of k "k - 52"] by (simp add: g_def pow2_def)
  from rnd_normal [OF kb] klo khi assms(3,4)
  obtain n where n: "rnd q = Fin (of_int n * g)" "2 ^ 52 \<le> n" "n \<le> 2 ^ 53"
      "n = round_half_even (q / g)"
    unfolding g_def by auto
  have "pow2 lo \<le> pow2 k" using klo by (rule pow2_mono)
  also have "\<dots> \<le> of_int n * g"
    using n(2) gpos by (simp add: k52 mult_right_mono)
  finally have lower: "pow2 lo \<le> of_int n * g" .
  have hk: "pow2 hi = 2 ^ nat (hi - k) * pow2 k"
    using pow2_add_nat [of k "nat (hi - k)"] khi by (simp add: mult.commute)
  have "q / g \<le> of_int (2 ^ nat (hi - k) * 2 ^ 52)"
    using assms(2) gpos by (simp add: hk k52 pos_divide_le_eq)
  then have "n \<le> 2 ^ nat (hi - k) * 2 ^ 52"
    unfolding n(4) by (rule rhe_le_int)
  then have "(of_int n :: rat) \<le> of_int (2 ^ nat (hi - k) * 2 ^ 52)"
    by (simp only: of_int_le_iff)
  then have "of_int n * g \<le> of_int (2 ^ nat (hi - k) * 2 ^ 52) * g"
    using gpos by (intro mult_right_mono) simp_all
  also have "\<dots> = pow2 hi" by (simp add: hk k52)
  finally have upper: "of_int n * g \<le> pow2 hi" .
  from n(1) lower upper show ?thesis by blast
qed

text \<open>Rounding a non-negative value below a power of two, the subnormal range
  included.\<close>

lemma rnd_upper:
  assumes "0 \<le> q" and "q < pow2 hi" and "- 1022 \<le> hi" and "hi \<le> 1022"
  shows "\<exists>r. rnd q = Fin r \<and> 0 \<le> r \<and> r \<le> pow2 hi"
proof (cases "q = 0")
  case True
  then show ?thesis using pow2_pos [of hi] by (simp add: rnd_def less_imp_le)
next
  case False
  then have qpos: "0 < q" using assms(1) by simp
  define k where "k = floor_log2 q"
  have kb: "pow2 k \<le> q" "q < pow2 (k + 1)"
    using floor_log2_bounds [OF qpos] by (simp_all add: k_def)
  have khi: "k < hi" unfolding k_def using qpos assms(2) by (rule floor_log2_less)
  show ?thesis
  proof (cases "- 1022 \<le> k")
    case True
    have "q \<le> pow2 (k + 1)" using kb by simp
    from rnd_range [OF kb(1) this True] khi assms(4)
    obtain r where "rnd q = Fin r" "pow2 k \<le> r" "r \<le> pow2 (k + 1)" by auto
    moreover have "pow2 (k + 1) \<le> pow2 hi" using khi by (intro pow2_mono) simp
    moreover have "0 < pow2 k" by (rule pow2_pos)
    ultimately show ?thesis by (intro exI [of _ r]) auto
  next
    case False
    define g where "g = pow2 (- 1074)"
    define n where "n = round_half_even (q / g)"
    have gpos: "0 < g" by (simp add: g_def pow2_pos)
    have mx: "max k (- 1022) - 52 = - 1074" using False by simp
    have "pow2 (k + 1) \<le> pow2 (- 1022)" using False by (intro pow2_mono) simp
    also have "\<dots> = 2 ^ 52 * g"
      using pow2_split [of "- 1022" "- 1074"] by (simp add: g_def pow2_def)
    finally have "q \<le> 2 ^ 52 * g" using kb(2) by linarith
    then have "q / g \<le> of_int (2 ^ 52)" using gpos by (simp add: pos_divide_le_eq)
    then have n_hi: "n \<le> 2 ^ 52" unfolding n_def by (rule rhe_le_int)
    have "of_int 0 \<le> q / g" using qpos gpos by simp
    then have n_lo: "0 \<le> n" unfolding n_def by (rule rhe_ge_int)
    have r0: "0 \<le> of_int n * g" using n_lo gpos by simp
    have "(of_int n :: rat) \<le> of_int (2 ^ 52)"
      using n_hi by (simp only: of_int_le_iff)
    then have "of_int n * g \<le> of_int (2 ^ 52) * g"
      using gpos by (intro mult_right_mono) simp_all
    also have "\<dots> = pow2 (- 1022)"
      using pow2_split [of "- 1022" "- 1074"] by (simp add: g_def pow2_def)
    finally have r1: "of_int n * g \<le> pow2 (- 1022)" .
    have "pow2 (- 1022) \<le> pow2 hi" using assms(3) by (rule pow2_mono)
    with r1 have r2: "of_int n * g \<le> pow2 hi" by linarith
    have "pow2 (- 1022) < pow2 1024" by (intro pow2_strict_mono) simp
    with r1 have r3: "\<not> pow2 1024 \<le> of_int n * g" by linarith
    have r4: "\<not> of_int n * g \<le> - pow2 1024" using r0 pow2_pos [of 1024] by linarith
    have "rnd q = Fin (of_int n * g)"
      using qpos r3 r4
      by (simp add: rnd_def k_def [symmetric] mx Let_def g_def [symmetric] n_def [symmetric])
    with r0 r2 show ?thesis by blast
  qed
qed

lemma rnd_overflow:
  assumes "pow2 1024 \<le> q"
  shows "rnd q = PInf"
proof -
  define k where "k = floor_log2 q"
  define g where "g = pow2 (k - 52)"
  have qpos: "0 < q" using assms pow2_pos [of 1024] by linarith
  have k_lo: "1024 \<le> k" unfolding k_def using assms by (rule floor_log2_ge)
  have kb: "pow2 k \<le> q" using floor_log2_bounds [OF qpos] by (simp add: k_def)
  have gpos: "0 < g" by (simp add: g_def pow2_pos)
  have k52: "pow2 k = 2 ^ 52 * g"
    using pow2_split [of k "k - 52"] by (simp add: g_def pow2_def)
  have "of_int (2 ^ 52) \<le> q / g" using kb gpos by (simp add: k52 pos_le_divide_eq)
  then have "2 ^ 52 \<le> round_half_even (q / g)" by (rule rhe_ge_int)
  then have "(of_int (2 ^ 52) :: rat) \<le> of_int (round_half_even (q / g))"
    by (simp only: of_int_le_iff)
  then have "of_int (2 ^ 52) * g \<le> of_int (round_half_even (q / g)) * g"
    using gpos by (intro mult_right_mono) simp_all
  then have "pow2 k \<le> of_int (round_half_even (q / g)) * g" by (simp add: k52)
  moreover have "pow2 1024 \<le> pow2 k" using k_lo by (rule pow2_mono)
  ultimately have big: "pow2 1024 \<le> of_int (round_half_even (q / g)) * g" by linarith
  have mx: "max k (- 1022) - 52 = k - 52" using k_lo by simp
  show ?thesis
    using qpos big
    by (simp add: rnd_def k_def [symmetric] mx Let_def g_def [symmetric])
qed

lemma rnd_underflow:
  assumes "0 \<le> q" and "q < pow2 (- 1075)"
  shows "rnd q = Fin 0"
proof (cases "q = 0")
  case True
  then show ?thesis by (simp add: rnd_def)
next
  case False
  then have qpos: "0 < q" using assms(1) by simp
  define k where "k = floor_log2 q"
  define g where "g = pow2 (- 1074)"
  have gpos: "0 < g" by (simp add: g_def pow2_pos)
  have "k < - 1075" unfolding k_def using qpos assms(2) by (rule floor_log2_less)
  then have mx: "max k (- 1022) - 52 = - 1074" by simp
  have "g = 2 * pow2 (- 1075)" using pow2_Suc [of "- 1075"] by (simp add: g_def)
  then have "q < 1 / 2 * g" using assms(2) by simp
  then have half: "q / g < 1 / 2" using gpos by (simp only: pos_divide_less_eq)
  then have lt1: "q / g < 1" by linarith
  have ge0: "0 \<le> q / g" using qpos gpos by simp
  have fl: "\<lfloor>q / g\<rfloor> = 0"
    by (rule floor_unique) (use lt1 ge0 in simp_all)
  have "round_half_even (q / g) = 0"
    using half by (simp add: round_half_even_def Let_def fl)
  then show ?thesis
    using qpos pow2_pos [of 1024]
    by (simp add: rnd_def k_def [symmetric] mx Let_def g_def [symmetric] less_imp_le)
qed

section \<open>The grid of doubles\<close>

text \<open>A normal double sits on the grid of its binade.\<close>

lemma f64_on_grid:
  assumes "is_f64 (Fin b)" and "pow2 k \<le> b" and "b < pow2 (k + 1)"
    and "- 1022 \<le> k" and "k \<le> 1022"
  shows "\<exists>n::int. b = of_int n * pow2 (k - 52)"
proof -
  from rnd_normal [OF assms(2-5)]
  obtain n where "rnd b = Fin (of_int n * pow2 (k - 52))" by auto
  moreover have "rnd b = Fin b" using assms(1) by simp
  ultimately show ?thesis by auto
qed

text \<open>Two multiples of a grid step that differ, differ by a step at least.\<close>

lemma grid_gap:
  assumes "x = of_int m * g" and "y = of_int n * g" and "x < y" and "0 < (g::rat)"
  shows "x + g \<le> y"
proof -
  have "of_int m * g < of_int n * g" using assms by simp
  then have "(of_int m :: rat) < of_int n" using assms(4) by (simp add: mult_less_cancel_right)
  then have "m + 1 \<le> n" by simp
  then have "(of_int (m + 1) :: rat) \<le> of_int n" by (simp only: of_int_le_iff)
  then have "of_int (m + 1) * g \<le> of_int n * g"
    using assms(4) by (intro mult_right_mono) simp_all
  then show ?thesis using assms(1,2) by (simp add: algebra_simps)
qed

text \<open>The grid of a binade is part of the grid of every lower binade.\<close>

lemma grid_coarser:
  assumes "j \<le> k"
  shows "of_int n * pow2 k = of_int (n * 2 ^ nat (k - j)) * pow2 j"
proof -
  have "pow2 k = pow2 j * 2 ^ nat (k - j)"
    using pow2_add_nat [of j "nat (k - j)"] assms by simp
  then show ?thesis by simp
qed

text \<open>Doubles \<open>b < a\<close>, the lower one normal: they are a grid step of \<open>b\<close> apart.\<close>

lemma f64_spacing:
  assumes "is_f64 (Fin a)" and "is_f64 (Fin b)" and "b < a"
    and "pow2 e \<le> b" and "b < pow2 (e + 1)" and "- 1022 \<le> e" and "a < pow2 1023"
  shows "b + pow2 (e - 52) \<le> a"
proof -
  define ea where "ea = floor_log2 a"
  have bpos: "0 < b" using assms(4) pow2_pos [of e] by linarith
  have apos: "0 < a" using bpos assms(3) by linarith
  have eb: "floor_log2 b = e" using assms(4,5) by (rule floor_log2_eqI)
  have e_le: "e \<le> ea"
    using floor_log2_mono [OF bpos, of a] assms(3) by (simp add: eb ea_def)
  have ea_hi: "ea < 1023" unfolding ea_def using apos assms(7) by (rule floor_log2_less)
  have ab: "pow2 ea \<le> a" "a < pow2 (ea + 1)"
    using floor_log2_bounds [OF apos] by (simp_all add: ea_def)
  have "e \<le> 1022" using e_le ea_hi by simp
  from f64_on_grid [OF assms(2,4,5,6) this]
  obtain n where n: "b = of_int n * pow2 (e - 52)" by auto
  have "- 1022 \<le> ea" "ea \<le> 1022" using e_le assms(6) ea_hi by simp_all
  from f64_on_grid [OF assms(1) ab this]
  obtain m where "a = of_int m * pow2 (ea - 52)" by auto
  then have m: "a = of_int (m * 2 ^ nat ((ea - 52) - (e - 52))) * pow2 (e - 52)"
    using grid_coarser [of "e - 52" "ea - 52" m] e_le by simp
  from grid_gap [OF n m assms(3) pow2_pos] show ?thesis .
qed

text \<open>The squares of two doubles \<open>b < a\<close> round to different doubles: the exact
  squares are more than a grid step of \<open>b\<^sup>2\<close> apart, and each rounding moves its square by
  half a step at most.\<close>

lemma sq_rounding_separated:
  assumes da: "is_f64 (Fin a)" and db: "is_f64 (Fin b)"
    and blo: "pow2 (- 302) \<le> b" and ba: "b < a" and ahi: "a \<le> pow2 300"
  shows "\<exists>rX rY. rnd (b * b) = Fin rX \<and> rnd (a * a) = Fin rY
           \<and> rX + pow2 (- 656) \<le> rY \<and> 0 \<le> rX \<and> rY \<le> pow2 600"
proof -
  define e where "e = floor_log2 b"
  define P where "P = pow2 e"
  define g where "g = pow2 (e - 52)"
  define X where "X = b * b"
  define Y where "Y = a * a"
  define kX where "kX = floor_log2 X"
  define kY where "kY = floor_log2 Y"
  define GX where "GX = pow2 (kX - 52)"
  define GY where "GY = pow2 (kY - 52)"
  have bpos: "0 < b" using blo pow2_pos [of "- 302"] by linarith
  have apos: "0 < a" using bpos ba by linarith
  have Ppos: "0 < P" and gpos: "0 < g" and GXpos: "0 < GX" and GYpos: "0 < GY"
    by (simp_all add: P_def g_def GX_def GY_def pow2_pos)
  have eb: "P \<le> b" "b < 2 * P"
    using floor_log2_bounds [OF bpos] by (simp_all add: e_def P_def pow2_Suc)
  have e_lo: "- 302 \<le> e" unfolding e_def using blo by (rule floor_log2_ge)
  have "b < pow2 300" using ba ahi by linarith
  then have e_hi: "e < 300" unfolding e_def using bpos by (intro floor_log2_less)
  have Pg: "P = 2 ^ 52 * g"
    using pow2_split [of e "e - 52"] by (simp add: P_def g_def pow2_def)
  have "pow2 300 < pow2 1023" by (intro pow2_strict_mono) simp
  then have a1023: "a < pow2 1023" using ahi by linarith
  have sp: "b + g \<le> a"
    unfolding g_def
  proof (rule f64_spacing [OF da db ba _ _ _ a1023])
    show "pow2 e \<le> b" using eb(1) by (simp add: P_def)
    show "b < pow2 (e + 1)" using eb(2) by (simp add: P_def pow2_Suc)
    show "- 1022 \<le> e" using e_lo by simp
  qed
  have "(b + g) * (b + g) \<le> a * a"
    using sp bpos gpos by (intro mult_mono) simp_all
  moreover have "(b + g) * (b + g) = X + 2 * (b * g) + g * g"
    by (simp add: X_def algebra_simps)
  moreover have "0 < g * g" using gpos by simp
  ultimately have XY: "X + 2 * (b * g) < Y" by (simp add: Y_def)
  have bg: "P * g \<le> b * g" using eb(1) gpos by (intro mult_right_mono) simp_all
  have Xlo: "P * P \<le> X"
    unfolding X_def using eb(1) Ppos by (intro mult_mono) simp_all
  have "b * b < (2 * P) * (2 * P)"
    using eb(2) bpos by (intro mult_strict_mono) simp_all
  then have Xhi: "X < 4 * (P * P)" by (simp add: X_def)
  have Xpos: "0 < X" using bpos by (simp add: X_def)
  have Ypos: "0 < Y" using apos by (simp add: Y_def)
  have p2e: "pow2 (2 * e) = P * P"
    using pow2_add [of e e] by (simp add: P_def)
  have p22: "pow2 2 = 4" by (simp add: pow2_def)
  have p2e2: "pow2 (2 * e + 2) = 4 * (P * P)"
    using pow2_add [of "2 * e" 2] by (simp add: p2e p22)
  have kXb: "pow2 kX \<le> X" "X < pow2 (kX + 1)"
    using floor_log2_bounds [OF Xpos] by (simp_all add: kX_def)
  have kYb: "pow2 kY \<le> Y" "Y < pow2 (kY + 1)"
    using floor_log2_bounds [OF Ypos] by (simp_all add: kY_def)
  have kX_lo: "2 * e \<le> kX"
    unfolding kX_def using Xlo by (intro floor_log2_ge) (simp add: p2e)
  have kX_hi: "kX < 2 * e + 2"
    unfolding kX_def using Xpos Xhi by (intro floor_log2_less) (simp_all add: p2e2)
  have kXY: "kX \<le> kY"
    unfolding kX_def kY_def using Xpos XY bpos gpos
    by (intro floor_log2_mono) (simp_all add: less_imp_le order_trans [of X "X + 2 * (b * g)" Y])
  have "a * a \<le> pow2 300 * pow2 300"
    using ahi apos by (intro mult_mono) simp_all
  then have Yhi: "Y \<le> pow2 600"
    using pow2_add [of 300 300] by (simp add: Y_def)
  have kY_hi: "kY \<le> 600" unfolding kY_def using Ypos Yhi by (rule floor_log2_le)
  have rX: "- 1022 \<le> kX" "kX \<le> 1022" using kX_lo kX_hi e_lo e_hi by simp_all
  have rY: "- 1022 \<le> kY" "kY \<le> 1022" using kXY rX kY_hi by simp_all
  from rnd_normal [OF kXb rX]
  obtain nX where nX: "rnd X = Fin (of_int nX * GX)" "2 ^ 52 \<le> nX" "nX \<le> 2 ^ 53"
      "\<bar>of_int nX * GX - X\<bar> \<le> pow2 (kX - 53)"
    unfolding GX_def by auto
  from rnd_normal [OF kYb rY]
  obtain nY where nY: "rnd Y = Fin (of_int nY * GY)" "2 ^ 52 \<le> nY"
      "\<bar>of_int nY * GY - Y\<bar> \<le> pow2 (kY - 53)"
    unfolding GY_def by auto
  define rx where "rx = of_int nX * GX"
  define ry where "ry = of_int nY * GY"
  have hX: "GX = 2 * pow2 (kX - 53)"
    using pow2_Suc [of "kX - 53"] by (simp add: GX_def)
  have hY: "GY = 2 * pow2 (kY - 53)"
    using pow2_Suc [of "kY - 53"] by (simp add: GY_def)
  have errX: "rx \<le> X + GX / 2" "X - GX / 2 \<le> rx"
    using nX(4) hX by (simp_all add: rx_def abs_le_iff)
  have errY: "ry \<le> Y + GY / 2" "Y - GY / 2 \<le> ry"
    using nY(3) hY by (simp_all add: ry_def abs_le_iff)
  have pkX: "pow2 (kX + 1) = 2 ^ 53 * GX"
    using pow2_split [of "kX + 1" "kX - 52"] by (simp add: GX_def pow2_def)
  have pkY: "pow2 kY = 2 ^ 52 * GY"
    using pow2_split [of kY "kY - 52"] by (simp add: GY_def pow2_def)
  have "(of_int nX :: rat) \<le> of_int (2 ^ 53)" using nX(3) by (simp only: of_int_le_iff)
  then have "of_int nX * GX \<le> of_int (2 ^ 53) * GX"
    using GXpos by (intro mult_right_mono) simp_all
  then have rx_hi: "rx \<le> pow2 (kX + 1)" by (simp add: rx_def pkX)
  have "(of_int (2 ^ 52) :: rat) \<le> of_int nY" using nY(2) by (simp only: of_int_le_iff)
  then have "of_int (2 ^ 52) * GY \<le> of_int nY * GY"
    using GYpos by (intro mult_right_mono) simp_all
  then have ry_lo: "pow2 kY \<le> ry" by (simp add: ry_def pkY)
  have "(of_int (2 ^ 52) :: rat) \<le> of_int nX" using nX(2) by (simp only: of_int_le_iff)
  then have "of_int (2 ^ 52) * GX \<le> of_int nX * GX"
    using GXpos by (intro mult_right_mono) simp_all
  then have rx_pos: "0 \<le> rx" using GXpos by (simp add: rx_def) 
  consider (even) "kX = 2 * e" | (odd) "kX = 2 * e + 1"
    using kX_lo kX_hi by linarith
  then have GXcases: "GX = P * g \<or> (GX = 2 * (P * g) \<and> kX = 2 * e + 1)"
  proof cases
    case even
    have a1: "pow2 (2 * e - 52) = P * g"
      using pow2_add [of e "e - 52"] by (simp add: P_def g_def)
    have "kX - 52 = 2 * e - 52" using even by simp
    then have "GX = pow2 (2 * e - 52)" by (simp only: GX_def)
    with a1 show ?thesis by simp
  next
    case odd
    have a1: "pow2 (2 * e - 52) = P * g"
      using pow2_add [of e "e - 52"] by (simp add: P_def g_def)
    have a2: "pow2 (2 * e - 51) = 2 * pow2 (2 * e - 52)"
      using pow2_Suc [of "2 * e - 52"] by simp
    have "kX - 52 = 2 * e - 51" using odd by simp
    then have "GX = pow2 (2 * e - 51)" by (simp only: GX_def)
    with a1 a2 odd show ?thesis by simp
  qed
  have K1: "GX \<le> 2 * (b * g)"
    using GXcases bg Ppos gpos by auto
  have lt: "rx < ry"
  proof (cases "kY = kX")
    case True
    then have "GY = GX" by (simp add: GY_def GX_def)
    with errX errY XY K1 show ?thesis by linarith
  next
    case False
    then have kk: "kX + 1 \<le> kY" using kXY by simp
    have le: "pow2 (kX + 1) \<le> pow2 kY" using kk by (rule pow2_mono)
    show ?thesis
    proof (rule ccontr)
      assume "\<not> rx < ry"
      with rx_hi ry_lo le have eq: "rx = pow2 (kX + 1)" "ry = pow2 (kX + 1)"
        and "pow2 kY \<le> pow2 (kX + 1)" by linarith+
      then have "kY \<le> kX + 1" by (intro pow2_le_imp_le)
      with kk have kYeq: "kY = kX + 1" by simp
      have "GY = 2 * GX"
        using pow2_Suc [of "kX - 52"] by (simp add: GY_def GX_def kYeq)
      with errX errY eq have d: "Y - X \<le> 3 / 2 * GX" by linarith
      from GXcases show False
      proof
        assume "GX = P * g"
        moreover have "0 < P * g" using Ppos gpos by simp
        ultimately show False using d XY bg by linarith
      next
        assume c: "GX = 2 * (P * g) \<and> kX = 2 * e + 1"
        with d XY have "2 * (b * g) < 3 * (P * g)" by linarith
        then have "(2 * b) * g < (3 * P) * g" by (simp add: algebra_simps)
        then have b15: "2 * b < 3 * P" using gpos by (simp add: mult_less_cancel_right)
        have "(2 * b) * (2 * b) < (3 * P) * (3 * P)"
          by (rule mult_strict_mono) (use b15 bpos Ppos in simp_all)
        then have x1: "4 * X < 9 * (P * P)" by (simp add: X_def algebra_simps)
        have "kX + 1 = 2 * e + 2" using c by simp
        then have "pow2 (kX + 1) = 4 * (P * P)" by (simp only: p2e2)
        with eq errX c have x2: "4 * (P * P) - P * g \<le> X" by linarith
        have "P * g \<le> P * P"
          using Ppos gpos by (simp add: Pg)
        moreover have "0 < P * P" using Ppos by simp
        ultimately show False using x1 x2 by linarith
      qed
    qed
  qed
  have ry_grid: "ry = of_int (nY * 2 ^ nat ((kY - 52) - (kX - 52))) * GX"
    unfolding ry_def GY_def GX_def using kXY by (intro grid_coarser) simp
  have gap: "rx + GX \<le> ry"
    using grid_gap [OF _ ry_grid lt GXpos, of nX] by (simp add: rx_def)
  have "pow2 (- 656) \<le> GX"
    unfolding GX_def using kX_lo e_lo by (intro pow2_mono) simp
  with gap have gap': "rx + pow2 (- 656) \<le> ry" by linarith
  have "0 < b * g" using bpos gpos by simp
  then have "pow2 (2 * e) \<le> Y" using Xlo XY p2e by linarith
  from rnd_range [OF this Yhi] e_lo
  obtain r where "rnd Y = Fin r" "r \<le> pow2 600" by auto
  with nY(1) have ry_hi: "ry \<le> pow2 600" by (simp add: ry_def)
  from nX(1) nY(1) gap' rx_pos ry_hi show ?thesis
    unfolding X_def Y_def rx_def ry_def by blast
qed

section \<open>Ranges through the operations\<close>

lemma pow2_neg: "pow2 (- k) = 1 / pow2 k"
proof -
  have "pow2 (k + - k) = pow2 k * pow2 (- k)" by (rule pow2_add)
  moreover have "pow2 (k + - k) = 1" by (simp add: pow2_def)
  ultimately show ?thesis using pow2_pos [of k] by (simp add: field_simps)
qed

lemma fmul_range:
  assumes "pow2 l \<le> x" and "x \<le> pow2 h" and "pow2 i \<le> y" and "y \<le> pow2 j"
    and "- 1022 \<le> l + i" and "h + j \<le> 1022"
  shows "\<exists>r. fmul (Fin x) (Fin y) = Fin r \<and> pow2 (l + i) \<le> r \<and> r \<le> pow2 (h + j)"
proof -
  have xpos: "0 < x" using assms(1) pow2_pos [of l] by linarith
  have ypos: "0 < y" using assms(3) pow2_pos [of i] by linarith
  have "pow2 l * pow2 i \<le> x * y"
    using assms(1,3) pow2_pos [of l] pow2_pos [of i] by (intro mult_mono) simp_all
  then have lo: "pow2 (l + i) \<le> x * y" by (simp only: pow2_add)
  have "x * y \<le> pow2 h * pow2 j"
    using assms(2,4) xpos ypos pow2_pos [of h] by (intro mult_mono) simp_all
  then have hi: "x * y \<le> pow2 (h + j)" by (simp only: pow2_add)
  from rnd_range [OF lo hi assms(5,6)] show ?thesis by simp
qed

lemma fdiv_range:
  assumes "pow2 l \<le> x" and "x \<le> pow2 h" and "pow2 i \<le> y" and "y \<le> pow2 j"
    and "- 1022 \<le> l - j" and "h - i \<le> 1022"
  shows "\<exists>r. fdiv (Fin x) (Fin y) = Fin r \<and> pow2 (l - j) \<le> r \<and> r \<le> pow2 (h - i)"
proof -
  have xpos: "0 < x" using assms(1) pow2_pos [of l] by linarith
  have ypos: "0 < y" using assms(3) pow2_pos [of i] by linarith
  have "1 / pow2 j \<le> 1 / y" using assms(4) ypos by (simp add: frac_le)
  then have a: "pow2 (- j) \<le> 1 / y" by (simp only: pow2_neg)
  have "1 / y \<le> 1 / pow2 i" using assms(3) pow2_pos [of i] by (simp add: frac_le)
  then have b: "1 / y \<le> pow2 (- i)" by (simp only: pow2_neg)
  have "pow2 l * pow2 (- j) \<le> x * (1 / y)"
    using assms(1) a pow2_pos [of l] pow2_pos [of "- j"] by (intro mult_mono) simp_all
  then have lo: "pow2 (l - j) \<le> x / y"
    using pow2_add [of l "- j"] by simp
  have "x * (1 / y) \<le> pow2 h * pow2 (- i)"
    using assms(2) b xpos ypos pow2_pos [of h] by (intro mult_mono) simp_all
  then have hi: "x / y \<le> pow2 (h - i)"
    using pow2_add [of h "- i"] by simp
  from rnd_range [OF lo hi assms(5,6)] ypos show ?thesis by simp
qed

lemma fsub_range:
  assumes "x + pow2 l \<le> y" and "0 \<le> x" and "y \<le> pow2 h" and "- 1022 \<le> l" and "h \<le> 1022"
  shows "\<exists>r. fsub (Fin y) (Fin x) = Fin r \<and> pow2 l \<le> r \<and> r \<le> pow2 h"
proof -
  have lo: "pow2 l \<le> y - x" using assms(1) by linarith
  have hi: "y - x \<le> pow2 h" using assms(2,3) by linarith
  from rnd_range [OF lo hi assms(4,5)] show ?thesis by simp
qed

lemma squares_separated:
  assumes "is_f64 (Fin a)" and "is_f64 (Fin b)"
    and "0 \<le> b" and "b < a" and "pow2 (- 300) \<le> a" and "a \<le> pow2 300"
  shows "\<exists>rX rY. fmul (Fin b) (Fin b) = Fin rX \<and> fmul (Fin a) (Fin a) = Fin rY
           \<and> rX + pow2 (- 656) \<le> rY \<and> 0 \<le> rX \<and> rY \<le> pow2 600"
proof (cases "pow2 (- 302) \<le> b")
  case True
  from sq_rounding_separated [OF assms(1,2) True assms(4,6)] show ?thesis by simp
next
  case False
  then have bs: "b < pow2 (- 302)" by simp
  have "b * b \<le> b * pow2 (- 302)"
    using bs assms(3) by (intro mult_left_mono) simp_all
  also have "\<dots> \<le> pow2 (- 302) * pow2 (- 302)"
    using bs pow2_pos [of "- 302"] by (intro mult_right_mono) simp_all
  also have "\<dots> = pow2 (- 604)" using pow2_add [of "- 302" "- 302"] by simp
  also have "\<dots> < pow2 (- 603)" by (intro pow2_strict_mono) simp
  finally have x1: "b * b < pow2 (- 603)" .
  have x0: "0 \<le> b * b" using assms(3) by simp
  from rnd_upper [OF x0 x1]
  obtain rX where rX: "rnd (b * b) = Fin rX" "0 \<le> rX" "rX \<le> pow2 (- 603)" by auto
  from fmul_range [OF assms(5,6) assms(5,6)]
  obtain rY where rY: "fmul (Fin a) (Fin a) = Fin rY" "pow2 (- 600) \<le> rY" "rY \<le> pow2 600"
    by auto
  have "pow2 (- 603) + pow2 (- 656) \<le> pow2 (- 602)"
    using pow2_Suc [of "- 603"] pow2_mono [of "- 656" "- 603"] by simp
  also have "\<dots> \<le> pow2 (- 600)" by (intro pow2_mono) simp
  finally have "rX + pow2 (- 656) \<le> rY" using rX(3) rY(2) by linarith
  with rX rY show ?thesis by simp
qed

lemma Math_PI_range: "pow2 1 \<le> 884279719003555 / 2 ^ 48" "884279719003555 / 2 ^ 48 \<le> pow2 2"
  by (simp_all add: pow2_def)

lemma const_ranges:
  "pow2 2 \<le> 4" "4 \<le> pow2 2" "pow2 3 \<le> 12" "12 \<le> pow2 4" "pow2 5 \<le> 36" "36 \<le> pow2 6"
  "pow2 (- 6) \<le> 3660525777126739 / 144115188075855872"
  "3660525777126739 / 144115188075855872 \<le> pow2 (- 5)"
  by (simp_all add: pow2_def)

section \<open>Evaluation at concrete doubles\<close>

text \<open>Each lemma rounds one exact result, with its binary exponent and its 53-bit
  significand given.\<close>

lemma lit_0_003: "rnd (3 / 1000) = Fin (3458764513820541 / 1152921504606846976)"
  by (rule rnd_eq_FinI [where e = "- 9" and n = "6917529027641082"])
     (simp_all add: pow2_def round_half_even_def floor_rat_numeral floor_rat_neg_numeral)

lemma lit_0_0254: "rnd (254 / 10000) = Fin (3660525777126739 / 144115188075855872)"
  by (rule rnd_eq_FinI [where e = "- 6" and n = "7321051554253478"])
     (simp_all add: pow2_def round_half_even_def floor_rat_numeral floor_rat_neg_numeral)

lemma lit_25_4: "rnd (254 / 10) = Fin (3574732204225331 / 140737488355328)"
  by (rule rnd_eq_FinI [where e = "4" and n = "7149464408450662"])
     (simp_all add: pow2_def round_half_even_def floor_rat_numeral floor_rat_neg_numeral)

lemma lit_0_002: "rnd (2 / 1000) = Fin (1152921504606847 / 576460752303423488)"
  by (rule rnd_eq_FinI [where e = "- 9" and n = "4611686018427388"])
     (simp_all add: pow2_def round_half_even_def floor_rat_numeral floor_rat_neg_numeral)

lemma lit_0_051: "rnd (51 / 1000) = Fin (7349874591868649 / 144115188075855872)"
  by (rule rnd_eq_FinI [where e = "- 5" and n = "7349874591868649"])
     (simp_all add: pow2_def round_half_even_def floor_rat_numeral floor_rat_neg_numeral)

lemma lit_0_0508: "rnd (508 / 10000) = Fin (3660525777126739 / 72057594037927936)"
  by (rule rnd_eq_FinI [where e = "- 5" and n = "7321051554253478"])
     (simp_all add: pow2_def round_half_even_def floor_rat_numeral floor_rat_neg_numeral)

lemma rnd_1000: "rnd (1000) = Fin 1000"
  by (rule rnd_eq_FinI [where e = "9" and n = "8796093022208000"])
     (simp_all add: pow2_def round_half_even_def floor_rat_numeral floor_rat_neg_numeral)

lemma ex_od2: "fmul (Fin 6) (Fin 6) = Fin 36"
proof -
  have "rnd (6 * 6) = Fin 36"
    by (rule rnd_eq_FinI [where e = "5" and n = "5066549580791808"])
       (simp_all add: pow2_def round_half_even_def floor_rat_numeral floor_rat_neg_numeral)
  then show ?thesis by simp
qed

lemma ex_id2: "fmul (Fin 3) (Fin 3) = Fin 9"
proof -
  have "rnd (3 * 3) = Fin 9"
    by (rule rnd_eq_FinI [where e = "3" and n = "5066549580791808"])
       (simp_all add: pow2_def round_half_even_def floor_rat_numeral floor_rat_neg_numeral)
  then show ?thesis by simp
qed

lemma ex_diff: "fsub (Fin 36) (Fin 9) = Fin 27"
proof -
  have "rnd (36 - 9) = Fin 27"
    by (rule rnd_eq_FinI [where e = "4" and n = "7599824371187712"])
       (simp_all add: pow2_def round_half_even_def floor_rat_numeral floor_rat_neg_numeral)
  then show ?thesis by simp
qed

lemma ex_area: "fmul (Fin (884279719003555 / 281474976710656)) (Fin 27) = Fin (1492222025818499 / 17592186044416)"
proof -
  have "rnd ((884279719003555 / 281474976710656) * 27) = Fin (1492222025818499 / 17592186044416)"
    by (rule rnd_eq_FinI [where e = "6" and n = "5968888103273996"])
       (simp_all add: pow2_def round_half_even_def floor_rat_numeral floor_rat_neg_numeral)
  then show ?thesis by simp
qed

lemma ex_4t: "fmul (Fin 4) (Fin (3458764513820541 / 1152921504606846976)) = Fin (3458764513820541 / 288230376151711744)"
proof -
  have "rnd (4 * (3458764513820541 / 1152921504606846976)) = Fin (3458764513820541 / 288230376151711744)"
    by (rule rnd_eq_FinI [where e = "- 7" and n = "6917529027641082"])
       (simp_all add: pow2_def round_half_even_def floor_rat_numeral floor_rat_neg_numeral)
  then show ?thesis by simp
qed

lemma ex_in: "fdiv (Fin (1492222025818499 / 17592186044416)) (Fin (3458764513820541 / 288230376151711744)) = Fin (3885994858902341 / 549755813888)"
proof -
  have "rnd ((1492222025818499 / 17592186044416) / (3458764513820541 / 288230376151711744)) = Fin (3885994858902341 / 549755813888)"
    by (rule rnd_eq_FinI [where e = "12" and n = "7771989717804682"])
       (simp_all add: pow2_def round_half_even_def floor_rat_numeral floor_rat_neg_numeral)
  then show ?thesis by simp
qed

lemma ex_ft: "fdiv (Fin (3885994858902341 / 549755813888)) (Fin 12) = Fin (5181326478536455 / 8796093022208)"
proof -
  have "rnd ((3885994858902341 / 549755813888) / 12) = Fin (5181326478536455 / 8796093022208)"
    by (rule rnd_eq_FinI [where e = "9" and n = "5181326478536455"])
       (simp_all add: pow2_def round_half_even_def floor_rat_numeral floor_rat_neg_numeral)
  then show ?thesis by simp
qed

lemma ex_yd: "fdiv (Fin (3885994858902341 / 549755813888)) (Fin 36) = Fin (6908435304715273 / 35184372088832)"
proof -
  have "rnd ((3885994858902341 / 549755813888) / 36) = Fin (6908435304715273 / 35184372088832)"
    by (rule rnd_eq_FinI [where e = "7" and n = "6908435304715273"])
       (simp_all add: pow2_def round_half_even_def floor_rat_numeral floor_rat_neg_numeral)
  then show ?thesis by simp
qed

lemma ex_m: "fmul (Fin (3885994858902341 / 549755813888)) (Fin (3660525777126739 / 144115188075855872)) = Fin (6317073242631645 / 35184372088832)"
proof -
  have "rnd ((3885994858902341 / 549755813888) * (3660525777126739 / 144115188075855872)) = Fin (6317073242631645 / 35184372088832)"
    by (rule rnd_eq_FinI [where e = "7" and n = "6317073242631645"])
       (simp_all add: pow2_def round_half_even_def floor_rat_numeral floor_rat_neg_numeral)
  then show ?thesis by simp
qed

lemma neg_od2: "fmul (Fin 1) (Fin 1) = Fin 1"
proof -
  have "rnd (1 * 1) = Fin 1"
    by (rule rnd_eq_FinI [where e = "0" and n = "4503599627370496"])
       (simp_all add: pow2_def round_half_even_def floor_rat_numeral floor_rat_neg_numeral)
  then show ?thesis by simp
qed

lemma neg_id2: "fmul (Fin (- 2)) (Fin (- 2)) = Fin 4"
proof -
  have "rnd ((- 2) * (- 2)) = Fin 4"
    by (rule rnd_eq_FinI [where e = "2" and n = "4503599627370496"])
       (simp_all add: pow2_def round_half_even_def floor_rat_numeral floor_rat_neg_numeral)
  then show ?thesis by simp
qed

lemma neg_diff: "fsub (Fin 1) (Fin 4) = Fin (- 3)"
proof -
  have "rnd (1 - 4) = Fin (- 3)"
    by (rule rnd_eq_FinI [where e = "1" and n = "- 6755399441055744"])
       (simp_all add: pow2_def round_half_even_def floor_rat_numeral floor_rat_neg_numeral)
  then show ?thesis by simp
qed

lemma neg_area: "fmul (Fin (884279719003555 / 281474976710656)) (Fin (- 3)) = Fin (- (2652839157010665 / 281474976710656))"
proof -
  have "rnd ((884279719003555 / 281474976710656) * (- 3)) = Fin (- (2652839157010665 / 281474976710656))"
    by (rule rnd_eq_FinI [where e = "3" and n = "- 5305678314021330"])
       (simp_all add: pow2_def round_half_even_def floor_rat_numeral floor_rat_neg_numeral)
  then show ?thesis by simp
qed

lemma neg_4t: "fmul (Fin 4) (Fin 1) = Fin 4"
proof -
  have "rnd (4 * 1) = Fin 4"
    by (rule rnd_eq_FinI [where e = "2" and n = "4503599627370496"])
       (simp_all add: pow2_def round_half_even_def floor_rat_numeral floor_rat_neg_numeral)
  then show ?thesis by simp
qed

lemma neg_in: "fdiv (Fin (- (2652839157010665 / 281474976710656))) (Fin 4) = Fin (- (2652839157010665 / 1125899906842624))"
proof -
  have "rnd ((- (2652839157010665 / 281474976710656)) / 4) = Fin (- (2652839157010665 / 1125899906842624))"
    by (rule rnd_eq_FinI [where e = "1" and n = "- 5305678314021330"])
       (simp_all add: pow2_def round_half_even_def floor_rat_numeral floor_rat_neg_numeral)
  then show ?thesis by simp
qed

lemma neg_ft: "fdiv (Fin (- (2652839157010665 / 1125899906842624))) (Fin 12) = Fin (- (884279719003555 / 4503599627370496))"
proof -
  have "rnd ((- (2652839157010665 / 1125899906842624)) / 12) = Fin (- (884279719003555 / 4503599627370496))"
    by (rule rnd_eq_FinI [where e = "- 3" and n = "- 7074237752028440"])
       (simp_all add: pow2_def round_half_even_def floor_rat_numeral floor_rat_neg_numeral)
  then show ?thesis by simp
qed

lemma neg_yd: "fdiv (Fin (- (2652839157010665 / 1125899906842624))) (Fin 36) = Fin (- (4716158501352293 / 72057594037927936))"
proof -
  have "rnd ((- (2652839157010665 / 1125899906842624)) / 36) = Fin (- (4716158501352293 / 72057594037927936))"
    by (rule rnd_eq_FinI [where e = "- 4" and n = "- 4716158501352293"])
       (simp_all add: pow2_def round_half_even_def floor_rat_numeral floor_rat_neg_numeral)
  then show ?thesis by simp
qed

lemma neg_m: "fmul (Fin (- (2652839157010665 / 1125899906842624))) (Fin (3660525777126739 / 144115188075855872)) = Fin (- (4312455333636537 / 72057594037927936))"
proof -
  have "rnd ((- (2652839157010665 / 1125899906842624)) * (3660525777126739 / 144115188075855872)) = Fin (- (4312455333636537 / 72057594037927936))"
    by (rule rnd_eq_FinI [where e = "- 5" and n = "- 8624910667273074"])
       (simp_all add: pow2_def round_half_even_def floor_rat_numeral floor_rat_neg_numeral)
  then show ?thesis by simp
qed

lemma cast_mm: "fmul (Fin (1152921504606847 / 576460752303423488)) (Fin (3574732204225331 / 140737488355328)) = Fin (3660525777126739 / 72057594037927936)"
proof -
  have "rnd ((1152921504606847 / 576460752303423488) * (3574732204225331 / 140737488355328)) = Fin (3660525777126739 / 72057594037927936)"
    by (rule rnd_eq_FinI [where e = "- 5" and n = "7321051554253478"])
       (simp_all add: pow2_def round_half_even_def floor_rat_numeral floor_rat_neg_numeral)
  then show ?thesis by simp
qed

lemma cast_scaled: "fmul (Fin (3660525777126739 / 72057594037927936)) (Fin 1000) = Fin (3574732204225331 / 70368744177664)"
proof -
  have "rnd ((3660525777126739 / 72057594037927936) * 1000) = Fin (3574732204225331 / 70368744177664)"
    by (rule rnd_eq_FinI [where e = "5" and n = "7149464408450662"])
       (simp_all add: pow2_def round_half_even_def floor_rat_numeral floor_rat_neg_numeral)
  then show ?thesis by simp
qed

lemma cast_back: "fdiv (Fin 51) (Fin 1000) = Fin (7349874591868649 / 144115188075855872)"
proof -
  have "rnd (51 / 1000) = Fin (7349874591868649 / 144115188075855872)"
    by (rule rnd_eq_FinI [where e = "- 5" and n = "7349874591868649"])
       (simp_all add: pow2_def round_half_even_def floor_rat_numeral floor_rat_neg_numeral)
  then show ?thesis by simp
qed

lemma pow10_3: "pow10 3 = Fin 1000"
  using rnd_1000 by (simp add: pow10_def)

text \<open>\<open>compute(6, 3, 0.003, "in")\<close>, operation by operation.\<close>

lemma calc_example:
  "calc (Fin 6) (Fin 3) (rnd (3 / 1000)) In =
     Valid (Fin (3885994858902341 / 549755813888)) (Fin (5181326478536455 / 8796093022208))
           (Fin (6908435304715273 / 35184372088832)) (Fin (6317073242631645 / 35184372088832))"
  unfolding calc_def toInches_def Let_def lit_0_003 lit_0_0254 Math_PI_def
  by (simp add: ex_od2 ex_id2 ex_diff ex_area ex_4t ex_in ex_ft ex_yd ex_m
           del: fmul.simps fsub.simps fdiv.simps)

lemma cast_apply:
  "round_to (fmul (rnd (2 / 1000)) MM_PER_IN) 3 = rnd (51 / 1000)"
  unfolding round_to_def MM_PER_IN_def Let_def lit_0_002 lit_25_4 lit_0_051 pow10_3
  by (simp add: cast_mm cast_scaled cast_back floor_rat_numeral
           del: fmul.simps fsub.simps fdiv.simps)

text \<open>A negative core diameter, an overflow and an underflow.\<close>

lemma toInches_In: "toInches v In = v"
  by (simp add: toInches_def)

lemma calc_negative:
  "calc (Fin 1) (Fin (- 2)) (Fin 1) In =
     Valid (Fin (- (2652839157010665 / 1125899906842624)))
           (Fin (- (884279719003555 / 4503599627370496)))
           (Fin (- (4716158501352293 / 72057594037927936)))
           (Fin (- (4312455333636537 / 72057594037927936)))"
  unfolding calc_def toInches_def Let_def lit_0_0254 Math_PI_def
  by (simp add: neg_od2 neg_id2 neg_diff neg_area neg_4t neg_in neg_ft neg_yd neg_m
           del: fmul.simps fsub.simps fdiv.simps)

lemma calc_overflow:
  "calc (Fin (2 ^ 600)) (Fin 0) (Fin 1) In = Valid PInf PInf PInf PInf"
proof -
  have o1: "fmul (Fin (2 ^ 600)) (Fin (2 ^ 600)) = PInf"
    unfolding fmul.simps by (rule rnd_overflow) (simp add: pow2_def)
  have o2: "fmul (Fin 0) (Fin 0) = Fin 0" by (simp add: rnd_def)
  have o3: "fmul (Fin 4) (Fin 1) = Fin 4" by (rule neg_4t)
  show ?thesis
    unfolding calc_def toInches_In Let_def o1 o2 o3 lit_0_0254 Math_PI_def
    by simp
qed

lemma calc_underflow:
  "calc (Fin (1 / 2 ^ 600)) (Fin 0) (Fin 1) In = Valid (Fin 0) (Fin 0) (Fin 0) (Fin 0)"
proof -
  have u1: "fmul (Fin (1 / 2 ^ 600)) (Fin (1 / 2 ^ 600)) = Fin 0"
    unfolding fmul.simps by (rule rnd_underflow) (simp_all add: pow2_def)
  have u2: "fmul (Fin 0) (Fin 0) = Fin 0" by (simp add: rnd_def)
  have u3: "fmul (Fin 4) (Fin 1) = Fin 4" by (rule neg_4t)
  have z: "rnd 0 = Fin 0" by (simp add: rnd_def)
  show ?thesis
    unfolding calc_def toInches_In Let_def u1 u2 u3 lit_0_0254 Math_PI_def
    by (simp add: z)
qed

lemma is_f64_6: "is_f64 (Fin 6)"
  unfolding is_f64.simps
  by (rule rnd_eq_FinI [where e = 2 and n = 6755399441055744])
     (simp_all add: pow2_def round_half_even_def floor_rat_numeral)

lemma is_f64_3: "is_f64 (Fin 3)"
  unfolding is_f64.simps
  by (rule rnd_eq_FinI [where e = 1 and n = 6755399441055744])
     (simp_all add: pow2_def round_half_even_def floor_rat_numeral)

section \<open>Lists and comparisons\<close>

lemma fgt_irrefl: "\<not> fgt x x"
  by (cases x) simp_all

lemma filter_index_ne:
  "map snd (filter (\<lambda>(i, _). i \<noteq> k) (enumerate n xs)) =
     (if n \<le> k \<and> k < n + length xs then take (k - n) xs @ drop (Suc (k - n)) xs else xs)"
proof (induction xs arbitrary: n)
  case Nil
  then show ?case by simp
next
  case (Cons x xs)
  show ?case
  proof (cases "n = k")
    case True
    have "map snd (filter (\<lambda>(i, _). i \<noteq> k) (enumerate (Suc n) xs)) = xs"
      using Cons.IH [of "Suc n"] True by simp
    then show ?thesis using True by simp
  next
    case False
    show ?thesis
    proof (cases "n < k")
      case True
      then have "k - n = Suc (k - Suc n)" by simp
      then show ?thesis using Cons.IH [of "Suc n"] False True by auto
    next
      case nlt: False
      then show ?thesis using Cons.IH [of "Suc n"] False by auto
    qed
  qed
qed

lemma strict_ne_index: "strict_ne (Fin (of_nat i)) (Fin (of_int k)) = (int i \<noteq> k)"
proof -
  have "(of_nat i :: rat) = of_int (int i)" by simp
  then have "((of_nat i :: rat) = of_int k) = (int i = k)"
    by (simp only: of_int_eq_iff)
  then show ?thesis by (simp add: strict_ne_def)
qed

lemma falsy_or_nonpositive:
  "(falsy x \<or> fle x (Fin 0)) = (x = NaN \<or> x = Fin 0 \<or> is_neg x)"
  by (cases x) (auto simp: falsy_def)

lemma filter_strict_ne:
  "t \<noteq> NaN \<Longrightarrow> filter (\<lambda>sr. strict_ne (savedAt sr) t) rs = filter (\<lambda>sr. savedAt sr \<noteq> t) rs"
  by (induction rs) (auto simp: strict_ne_def)

lemma savedAt_example_roll: "savedAt (example_roll n t) = t"
  by (simp add: example_roll_def)

text \<open>The handler of \<open>part_002\<close> is the \<open>remove\<close> of the specification, and undoes a
  save; the handler of \<open>VinylRemainingApp.tsx\<close> drops every entry of that
  \<open>savedAt\<close>.\<close>

lemma findIndex_from_range:
  "findIndex_from k p xs = - 1 \<or> int k \<le> findIndex_from k p xs"
proof (induction xs arbitrary: k)
  case Nil
  then show ?case by simp
next
  case (Cons x xs)
  from Cons [of "Suc k"] show ?case by auto
qed

lemma filter_int_index_ne:
  "map snd (filter (\<lambda>(i, _). int i \<noteq> int k) (enumerate n xs)) =
     (if n \<le> k \<and> k < n + length xs then take (k - n) xs @ drop (Suc (k - n)) xs else xs)"
  using filter_index_ne [of k n xs] by simp

lemma remove_at_findIndex:
  assumes "t \<noteq> NaN"
  shows "(let idx = findIndex_from k (\<lambda>sr. strict_eq (savedAt sr) t) rs
          in if 0 \<le> idx
             then map snd (filter (\<lambda>(i2, _). int i2 \<noteq> idx) (enumerate k rs))
             else rs) = spec_remove t rs"
proof (induction rs arbitrary: k)
  case Nil
  then show ?case by simp
next
  case (Cons x xs)
  show ?case
  proof (cases "savedAt x = t")
    case True
    then have hit: "strict_eq (savedAt x) t" using assms by (simp add: strict_eq_def)
    have "map snd (filter (\<lambda>(i2, _). int i2 \<noteq> int k) (enumerate (Suc k) xs)) = xs"
      using filter_int_index_ne [of k "Suc k" xs] by simp
    then show ?thesis using True hit by (simp add: Let_def)
  next
    case False
    then have miss: "\<not> strict_eq (savedAt x) t" by (simp add: strict_eq_def)
    define idx where "idx = findIndex_from (Suc k) (\<lambda>sr. strict_eq (savedAt sr) t) xs"
    from findIndex_from_range [of "Suc k" "\<lambda>sr. strict_eq (savedAt sr) t" xs]
    have rng: "idx = - 1 \<or> int (Suc k) \<le> idx" by (simp add: idx_def)
    from Cons [of "Suc k"]
    have IH: "(if 0 \<le> idx
               then map snd (filter (\<lambda>(i2, _). int i2 \<noteq> idx) (enumerate (Suc k) xs))
               else xs) = spec_remove t xs"
      unfolding idx_def by (simp only: Let_def)
    show ?thesis
    proof (cases "0 \<le> idx")
      case True
      with rng have "int k \<noteq> idx" by auto
      with True IH show ?thesis using False miss
        by (simp add: Let_def idx_def [symmetric])
    next
      case neg: False
      with IH show ?thesis using False miss
        by (simp add: Let_def idx_def [symmetric])
    qed
  qed
qed

lemma deleteRoll_findIndex_first_match:
  assumes "savedAt r \<noteq> NaN"
  shows "savedRolls (deleteRoll_findIndex r st) = spec_remove (savedAt r) (savedRolls st)"
  using remove_at_findIndex [OF assms, of 0 "savedRolls st"]
  by (auto simp: deleteRoll_findIndex_def findIndex_def setSavedRolls_def Let_def)

lemma save_then_deleteRoll_findIndex:
  assumes "now \<noteq> NaN" and "calc_of st = Valid a b c d"
  shows "savedAt (hd (savedRolls (saveRoll trim now nm st))) = now
         \<and> savedRolls (deleteRoll_findIndex (hd (savedRolls (saveRoll trim now nm st)))
                                            (saveRoll trim now nm st))
             = savedRolls st"
proof -
  define st' where "st' = saveRoll trim now nm st"
  obtain e where e: "savedRolls st' = e # savedRolls st" "savedAt e = now"
    using assms(2) by (simp add: st'_def saveRoll_def setSavedRolls_def Let_def)
  have "savedAt (hd (savedRolls st')) \<noteq> NaN" using e assms(1) by simp
  from deleteRoll_findIndex_first_match [OF this, of st'] e
  show ?thesis by (simp add: st'_def [symmetric])
qed

lemma deleteRoll_filter_all:
  assumes "savedAt r \<noteq> NaN"
  shows "savedRolls (deleteRoll r st) = filter (\<lambda>sr. savedAt sr \<noteq> savedAt r) (savedRolls st)"
  using assms by (simp add: deleteRoll_def setSavedRolls_def Let_def filter_strict_ne)

section \<open>The claims\<close>

text \<open>
  C1. For every input \<open>(od, id, thickness, unit)\<close>, \<open>calc\<close> returns the \<open>Invalid\<close>
  variant, with the fixed message "Check that OD > ID and thickness > 0", if and only if
  it is not the case that \<open>od\<close> in inches is strictly greater than \<open>id\<close> in inches
  and \<open>thickness\<close> in inches is strictly greater than 0; no other message is ever
  returned; and \<open>calc(od, od, t, unit)\<close> is \<open>Invalid\<close> for every \<open>od\<close> and \<open>t\<close>.
\<close>

theorem calc_invalid_iff:
  "(calc od_v id_v t u = Invalid ''Check that OD > ID and thickness > 0'')
     = (\<not> (fgt (toInches od_v u) (toInches id_v u) \<and> fgt (toInches t u) (Fin 0)))
   \<and> (case calc od_v id_v t u of
         Invalid m \<Rightarrow> m = ''Check that OD > ID and thickness > 0''
       | Valid a b c d \<Rightarrow> True)
   \<and> calc od_v od_v t u = Invalid ''Check that OD > ID and thickness > 0''"
  by (simp add: calc_def Let_def fgt_irrefl)

theorem calc_invalid_iff_witness:
  "calc (Fin 3) (Fin 6) (Fin 1) In = Invalid ''Check that OD > ID and thickness > 0''
   \<and> calc (Fin 6) (Fin 3) (Fin 0) In = Invalid ''Check that OD > ID and thickness > 0''
   \<and> calc (Fin 6) (Fin 3) NaN Mm = Invalid ''Check that OD > ID and thickness > 0''
   \<and> calc (Fin 6) (Fin 6) (Fin 1) In = Invalid ''Check that OD > ID and thickness > 0''"
  using calc_invalid_iff [of "Fin 3" "Fin 6" "Fin 1" In]
        calc_invalid_iff [of "Fin 6" "Fin 3" "Fin 0" In]
        calc_invalid_iff [of "Fin 6" "Fin 3" NaN Mm]
        calc_invalid_iff [of "Fin 6" "Fin 6" "Fin 1" In]
  by (simp add: toInches_def)

text \<open>
  C2. For every input whose inches satisfy \<open>od > id\<close> and \<open>thickness > 0\<close>, \<open>calc\<close>
  returns \<open>Valid\<close> with \<open>lengthIn\<close> the formula \<open>\<pi> \<times> (od\<^sup>2 - id\<^sup>2) / (4 \<times> t)\<close> on the
  inches, \<open>lengthFt = lengthIn / 12\<close>, \<open>lengthYd = lengthIn / 36\<close> and
  \<open>lengthM = lengthIn \<times> 0.0254\<close>, every operation in binary64 and no \<open>round\<close>
  applied; inches are the value itself, millimetres are multiplied by the double
  \<open>1 / 25.4\<close>.
\<close>

theorem calc_valid_formula:
  assumes "fgt (toInches od_v u) (toInches id_v u)" and "fgt (toInches t u) (Fin 0)"
  shows "calc od_v id_v t u =
           (let L = spec_lengthInches (toInches od_v u) (toInches id_v u) (toInches t u)
            in Valid L (fdiv L (Fin 12)) (fdiv L (Fin 36)) (fmul L (rnd (254 / 10000))))
         \<and> toInches v In = v
         \<and> toInches v Mm = fmul v (fdiv (Fin 1) (rnd (254 / 10)))"
  using assms by (simp add: calc_def spec_lengthInches_def Let_def toInches_def IN_PER_MM_def)

theorem calc_valid_formula_witness:
  "fgt (toInches (Fin 6) In) (toInches (Fin 3) In)
   \<and> fgt (toInches (rnd (3 / 1000)) In) (Fin 0)
   \<and> calc (Fin 6) (Fin 3) (rnd (3 / 1000)) In =
       Valid (spec_lengthInches (Fin 6) (Fin 3) (rnd (3 / 1000)))
             (fdiv (spec_lengthInches (Fin 6) (Fin 3) (rnd (3 / 1000))) (Fin 12))
             (fdiv (spec_lengthInches (Fin 6) (Fin 3) (rnd (3 / 1000))) (Fin 36))
             (fmul (spec_lengthInches (Fin 6) (Fin 3) (rnd (3 / 1000))) (rnd (254 / 10000)))"
proof -
  have h1: "fgt (toInches (Fin 6) In) (toInches (Fin 3) In)"
    by (simp add: toInches_def)
  have h2: "fgt (toInches (rnd (3 / 1000)) In) (Fin 0)"
    unfolding toInches_def lit_0_003 by simp
  from calc_valid_formula [OF h1 h2] h1 h2 show ?thesis
    by (simp only: Let_def toInches_def Unit.distinct if_False simp_thms)
qed

text \<open>
  C3, as the code has it. \<open>calc(6, 3, 0.003, "in")\<close> is \<open>Valid\<close> with
  \<open>lengthIn \<approx> 7068.58\<close>, \<open>lengthFt \<approx> 589.05\<close>, \<open>lengthM \<approx> 179.54\<close> and
  \<open>lengthYd \<approx> 196.35\<close>: \<open>\<pi> \<times> 27 / 0.012\<close> is 7068.58, a third of the 21205.75 of the
  specification.
\<close>

theorem calc_example_values:
  "calc (Fin 6) (Fin 3) (rnd (3 / 1000)) In =
     Valid (Fin (3885994858902341 / 549755813888)) (Fin (5181326478536455 / 8796093022208))
           (Fin (6908435304715273 / 35184372088832)) (Fin (6317073242631645 / 35184372088832))
   \<and> approx (lengthIn (calc (Fin 6) (Fin 3) (rnd (3 / 1000)) In)) (706858 / 100)
   \<and> approx (lengthFt (calc (Fin 6) (Fin 3) (rnd (3 / 1000)) In)) (58905 / 100)
   \<and> approx (lengthM (calc (Fin 6) (Fin 3) (rnd (3 / 1000)) In)) (17954 / 100)
   \<and> approx (lengthYd (calc (Fin 6) (Fin 3) (rnd (3 / 1000)) In)) (19635 / 100)"
  by (simp add: calc_example approx_def)

theorem calc_example_values_witness:
  "approx (lengthIn (calc (Fin 6) (Fin 3) (rnd (3 / 1000)) In)) (706858 / 100)"
  by (rule calc_example_values [THEN conjunct2, THEN conjunct1])

text \<open>The values of the specification (21205.75, 1767.15, 538.59 and 589.05) are not
  the result.\<close>

theorem calc_example_counterexample:
  "calc (Fin 6) (Fin 3) (rnd (3 / 1000)) In =
     Valid (Fin (3885994858902341 / 549755813888)) (Fin (5181326478536455 / 8796093022208))
           (Fin (6908435304715273 / 35184372088832)) (Fin (6317073242631645 / 35184372088832))
   \<and> \<not> approx (lengthIn (calc (Fin 6) (Fin 3) (rnd (3 / 1000)) In)) (2120575 / 100)
   \<and> \<not> approx (lengthFt (calc (Fin 6) (Fin 3) (rnd (3 / 1000)) In)) (176715 / 100)
   \<and> \<not> approx (lengthM (calc (Fin 6) (Fin 3) (rnd (3 / 1000)) In)) (53859 / 100)
   \<and> \<not> approx (lengthYd (calc (Fin 6) (Fin 3) (rnd (3 / 1000)) In)) (58905 / 100)"
  by (simp add: calc_example approx_def)

text \<open>
  C4, as the code has it. When the three values in inches are finite, \<open>od\<close> and \<open>id\<close>
  doubles with \<open>0 \<le> id < od\<close>, \<open>2\<^sup>-\<^sup>3\<^sup>0\<^sup>0 \<le> od \<le> 2\<^sup>3\<^sup>0\<^sup>0\<close> and
  \<open>2\<^sup>-\<^sup>3\<^sup>0\<^sup>0 \<le> thickness \<le> 2\<^sup>3\<^sup>0\<^sup>0\<close>, \<open>calc\<close> is \<open>Valid\<close> and its four lengths are positive
  and finite.
\<close>

theorem calc_lengths_positive_finite:
  assumes "toInches od_v u = Fin a" and "toInches id_v u = Fin b" and "toInches t u = Fin c"
    and "is_f64 (Fin a)" and "is_f64 (Fin b)"
    and "0 \<le> b" and "b < a" and "1 / 2 ^ 300 \<le> a" and "a \<le> 2 ^ 300"
    and "1 / 2 ^ 300 \<le> c" and "c \<le> 2 ^ 300"
  shows "case calc od_v id_v t u of
           Invalid m \<Rightarrow> False
         | Valid L F Y M \<Rightarrow>
             positive_finite L \<and> positive_finite F \<and> positive_finite Y \<and> positive_finite M"
proof -
  have a_rng: "pow2 (- 300) \<le> a" "a \<le> pow2 300"
    using assms(8,9) by (simp_all add: pow2_def)
  have c_rng: "pow2 (- 300) \<le> c" "c \<le> pow2 300"
    using assms(10,11) by (simp_all add: pow2_def)
  have cpos: "0 < c" using c_rng(1) pow2_pos [of "- 300"] by linarith
  from squares_separated [OF assms(4,5,6,7) a_rng]
  obtain rX rY where sq: "fmul (Fin b) (Fin b) = Fin rX" "fmul (Fin a) (Fin a) = Fin rY"
      "rX + pow2 (- 656) \<le> rY" "0 \<le> rX" "rY \<le> pow2 600" by auto
  from fsub_range [OF sq(3,4,5)]
  obtain d1 where d1: "fsub (Fin rY) (Fin rX) = Fin d1" "pow2 (- 656) \<le> d1" "d1 \<le> pow2 600"
    by auto
  from fmul_range [OF Math_PI_range d1(2,3)]
  obtain d2 where "fmul (Fin (884279719003555 / 2 ^ 48)) (Fin d1) = Fin d2"
      and d2: "pow2 (- 655) \<le> d2" "d2 \<le> pow2 602" by auto
  then have f2: "fmul Math_PI (Fin d1) = Fin d2" by (simp only: Math_PI_def)
  from fmul_range [OF const_ranges(1,2) c_rng]
  obtain d3 where d3: "fmul (Fin 4) (Fin c) = Fin d3" "pow2 (- 298) \<le> d3" "d3 \<le> pow2 302"
    by auto
  from fdiv_range [OF d2 d3(2,3)]
  obtain L where L: "fdiv (Fin d2) (Fin d3) = Fin L" "pow2 (- 957) \<le> L" "L \<le> pow2 900"
    by auto
  from fdiv_range [OF L(2,3) const_ranges(3,4)]
  obtain F where F: "fdiv (Fin L) (Fin 12) = Fin F" "pow2 (- 961) \<le> F" by auto
  from fdiv_range [OF L(2,3) const_ranges(5,6)]
  obtain Y where Y: "fdiv (Fin L) (Fin 36) = Fin Y" "pow2 (- 963) \<le> Y" by auto
  from fmul_range [OF L(2,3) const_ranges(7,8)]
  obtain M where "fmul (Fin L) (Fin (3660525777126739 / 144115188075855872)) = Fin M"
      and M: "pow2 (- 963) \<le> M" by auto
  then have fM: "fmul (Fin L) (rnd (254 / 10000)) = Fin M" by (simp only: lit_0_0254)
  have "calc od_v id_v t u = Valid (Fin L) (Fin F) (Fin Y) (Fin M)"
    unfolding calc_def Let_def assms(1,2,3) sq(1,2) d1(1) f2 d3(1) L(1) F(1) Y(1) fM
    using assms(7) cpos by simp
  moreover have "0 < L" "0 < F" "0 < Y" "0 < M"
    using L(2) F(2) Y(2) M pow2_pos [of "- 957"] pow2_pos [of "- 961"] pow2_pos [of "- 963"]
    by linarith+
  ultimately show ?thesis by simp
qed

theorem calc_lengths_positive_finite_witness:
  "is_f64 (Fin 6) \<and> is_f64 (Fin 3)
   \<and> toInches (rnd (3 / 1000)) In = Fin (3458764513820541 / 1152921504606846976)
   \<and> positive_finite (lengthIn (calc (Fin 6) (Fin 3) (rnd (3 / 1000)) In))
   \<and> positive_finite (lengthFt (calc (Fin 6) (Fin 3) (rnd (3 / 1000)) In))
   \<and> positive_finite (lengthYd (calc (Fin 6) (Fin 3) (rnd (3 / 1000)) In))
   \<and> positive_finite (lengthM (calc (Fin 6) (Fin 3) (rnd (3 / 1000)) In))"
proof -
  have t: "toInches (rnd (3 / 1000)) In = Fin (3458764513820541 / 1152921504606846976)"
    unfolding toInches_def lit_0_003 by simp
  have "case calc (Fin 6) (Fin 3) (rnd (3 / 1000)) In of
           Invalid m \<Rightarrow> False
         | Valid L F Y M \<Rightarrow>
             positive_finite L \<and> positive_finite F \<and> positive_finite Y \<and> positive_finite M"
    by (rule calc_lengths_positive_finite [where a = 6 and b = 3, OF _ _ t is_f64_6 is_f64_3])
       (simp_all add: toInches_def)
  then show ?thesis
    using is_f64_6 is_f64_3 t by (auto split: CalcResult.splits)
qed

text \<open>Without these bounds a \<open>Valid\<close> result need not be positive and finite: a
  negative \<open>id\<close> below a smaller \<open>od\<close> gives negative lengths, \<open>od = 2\<^sup>6\<^sup>0\<^sup>0\<close> overflows to
  \<open>Infinity\<close>, and \<open>od = 2\<^sup>-\<^sup>6\<^sup>0\<^sup>0\<close> underflows to zero.\<close>

theorem calc_lengths_counterexample:
  "calc (Fin 1) (Fin (- 2)) (Fin 1) In =
     Valid (Fin (- (2652839157010665 / 1125899906842624)))
           (Fin (- (884279719003555 / 4503599627370496)))
           (Fin (- (4716158501352293 / 72057594037927936)))
           (Fin (- (4312455333636537 / 72057594037927936)))
   \<and> \<not> positive_finite (lengthIn (calc (Fin 1) (Fin (- 2)) (Fin 1) In))
   \<and> calc (Fin (2 ^ 600)) (Fin 0) (Fin 1) In = Valid PInf PInf PInf PInf
   \<and> \<not> positive_finite (lengthIn (calc (Fin (2 ^ 600)) (Fin 0) (Fin 1) In))
   \<and> calc (Fin (1 / 2 ^ 600)) (Fin 0) (Fin 1) In = Valid (Fin 0) (Fin 0) (Fin 0) (Fin 0)
   \<and> \<not> positive_finite (lengthIn (calc (Fin (1 / 2 ^ 600)) (Fin 0) (Fin 1) In))"
  using calc_negative calc_overflow calc_underflow by simp

text \<open>
  C5. \<open>remove(savedAt)\<close> deletes exactly the first entry whose \<open>savedAt\<close> matches and
  leaves every other entry in place, another entry of the same \<open>savedAt\<close> included; a
  save of a \<open>Valid\<close> result followed by the removal of the new entry gives the list
  back. The handler of \<open>part_002\<close> does so (\<open>deleteRoll_findIndex_first_match\<close>,
  \<open>save_then_deleteRoll_findIndex\<close>); the handler of \<open>VinylRemainingApp.tsx\<close> does
  not. At two entries saved in the same millisecond it removes both where the other
  handler and the specification remove the first; and a save followed by the removal of
  the new entry also takes an earlier entry of that millisecond with it.
\<close>

theorem deleteRoll_duplicates:
  "savedRolls (deleteRoll (example_roll ''A'' (Fin 1700000000000))
       (initial_state\<lparr>savedRolls := [example_roll ''A'' (Fin 1700000000000),
                                     example_roll ''B'' (Fin 1700000000000)]\<rparr>)) = []
   \<and> savedRolls (deleteRoll_findIndex (example_roll ''A'' (Fin 1700000000000))
       (initial_state\<lparr>savedRolls := [example_roll ''A'' (Fin 1700000000000),
                                     example_roll ''B'' (Fin 1700000000000)]\<rparr>))
       = [example_roll ''B'' (Fin 1700000000000)]
   \<and> spec_remove (Fin 1700000000000)
        [example_roll ''A'' (Fin 1700000000000), example_roll ''B'' (Fin 1700000000000)]
       = [example_roll ''B'' (Fin 1700000000000)]
   \<and> savedRolls
        (deleteRoll
           (hd (savedRolls (saveRoll (\<lambda>s. s) (Fin 1700000000000) None
                  (initial_state\<lparr>id' := Fin 3,
                                 savedRolls := [example_roll ''B'' (Fin 1700000000000)]\<rparr>))))
           (saveRoll (\<lambda>s. s) (Fin 1700000000000) None
              (initial_state\<lparr>id' := Fin 3,
                             savedRolls := [example_roll ''B'' (Fin 1700000000000)]\<rparr>)))
       = []
   \<and> savedRolls
        (deleteRoll_findIndex
           (hd (savedRolls (saveRoll (\<lambda>s. s) (Fin 1700000000000) None
                  (initial_state\<lparr>id' := Fin 3,
                                 savedRolls := [example_roll ''B'' (Fin 1700000000000)]\<rparr>))))
           (saveRoll (\<lambda>s. s) (Fin 1700000000000) None
              (initial_state\<lparr>id' := Fin 3,
                             savedRolls := [example_roll ''B'' (Fin 1700000000000)]\<rparr>)))
       = [example_roll ''B'' (Fin 1700000000000)]"
proof -
  have c: "calc_of (initial_state\<lparr>id' := Fin 3,
                     savedRolls := [example_roll ''B'' (Fin 1700000000000)]\<rparr>) =
     Valid (Fin (3885994858902341 / 549755813888)) (Fin (5181326478536455 / 8796093022208))
           (Fin (6908435304715273 / 35184372088832)) (Fin (6317073242631645 / 35184372088832))"
    by (simp add: calc_of_def initial_state_def calc_example)
  show ?thesis
    by (simp add: c deleteRoll_def deleteRoll_findIndex_def findIndex_def saveRoll_def
          setSavedRolls_def Let_def strict_ne_def strict_eq_def savedAt_example_roll)
qed

text \<open>
  C6. For every name and every current-input state, \<open>saveRoll\<close> while \<open>calc\<close> is the
  \<open>Invalid\<close> variant is a no-op: the whole state is returned as it was, so the list
  of saved rolls keeps its length and contents and no \<open>store.set\<close> is issued.
\<close>

theorem saveRoll_invalid_noop:
  "calc_of st = Invalid m \<Longrightarrow> saveRoll trim now name_opt st = st"
  by (simp add: saveRoll_def)

theorem saveRoll_invalid_noop_witness:
  "saveRoll (\<lambda>s. s) (Fin 1700000000000) (Some ''Roll A'')
      (initial_state\<lparr>od := Fin 3, id' := Fin 3\<rparr>) = initial_state\<lparr>od := Fin 3, id' := Fin 3\<rparr>"
proof -
  have "calc_of (initial_state\<lparr>od := Fin 3, id' := Fin 3\<rparr>)
          = Invalid ''Check that OD > ID and thickness > 0''"
    by (simp add: calc_of_def calc_def Let_def fgt_irrefl)
  then show ?thesis by (rule saveRoll_invalid_noop)
qed

text \<open>
  C7, as the code has it. \<open>addPreset\<close> is a silent no-op when the value in inches is
  \<open>NaN\<close>, zero or negative (\<open>-Infinity\<close> included); otherwise, \<open>+Infinity\<close> included,
  exactly one preset holding the value in inches is put in front of the list.
\<close>

theorem addPreset_guard:
  "(let tIn = toInches tValue (unit st)
    in if tIn = NaN \<or> tIn = Fin 0 \<or> is_neg tIn
       then addPreset fmt name_v tValue st = st
       else presets (addPreset fmt name_v tValue st) =
              \<lparr>name = (if name_v = []
                       then fmt (if unit st = Mm then fmul tIn (rnd (254 / 10)) else tIn) 3
                            @ '' '' @ unit_str (unit st)
                       else name_v),
               thicknessIn = tIn\<rparr> # presets st)"
  by (simp add: addPreset_def Let_def falsy_or_nonpositive setPresets_def)

theorem addPreset_guard_witness:
  "addPreset (\<lambda>v d. []) ''Zero'' (Fin 0) initial_state = initial_state
   \<and> addPreset (\<lambda>v d. []) ''Minus'' NInf initial_state = initial_state
   \<and> addPreset (\<lambda>v d. []) ''NaN'' NaN initial_state = initial_state
   \<and> presets (addPreset (\<lambda>v d. []) ''Thick'' (Fin 1) initial_state) =
        \<lparr>name = ''Thick'', thicknessIn = Fin 1\<rparr> # DEFAULT_PRESETS"
  using addPreset_guard [of "Fin 0" initial_state "\<lambda>v d. []" "''Zero''"]
        addPreset_guard [of NInf initial_state "\<lambda>v d. []" "''Minus''"]
        addPreset_guard [of NaN initial_state "\<lambda>v d. []" "''NaN''"]
        addPreset_guard [of "Fin 1" initial_state "\<lambda>v d. []" "''Thick''"]
  by (simp add: toInches_def initial_state_def Let_def)

theorem addPreset_infinity_counterexample:
  "presets (addPreset (\<lambda>v d. []) ''Thick'' PInf initial_state) =
     \<lparr>name = ''Thick'', thicknessIn = PInf\<rparr> # presets initial_state
   \<and> presets (addPreset (\<lambda>v d. []) ''Thick'' PInf initial_state) \<noteq> presets initial_state"
  by (simp add: addPreset_def Let_def falsy_def toInches_def setPresets_def initial_state_def)

text \<open>
  C8. Applying the built-in "Cast 2 mil" preset (0.002 in) while the unit is
  millimetres sets the thickness to 0.051: \<open>0.002 \<times> 25.4\<close> is the double 0.0508, which
  \<open>round(_, 3)\<close> takes to the double 0.051.
\<close>

theorem applyPreset_cast_mm:
  assumes "unit st = Mm"
  shows "thickness (applyPreset (DEFAULT_PRESETS ! 1) st) = rnd (51 / 1000)
         \<and> name (DEFAULT_PRESETS ! 1) = ''Cast 2 mil''
         \<and> thicknessIn (DEFAULT_PRESETS ! 1) = rnd (2 / 1000)
         \<and> fmul (rnd (2 / 1000)) MM_PER_IN = rnd (508 / 10000)"
proof -
  have n: "name (DEFAULT_PRESETS ! 1) = ''Cast 2 mil''"
    and t: "thicknessIn (DEFAULT_PRESETS ! 1) = rnd (2 / 1000)"
    by (simp_all add: DEFAULT_PRESETS_def)
  have "thickness (applyPreset p st) = round_to (fmul (thicknessIn p) MM_PER_IN) 3" for p
    using assms by (simp add: applyPreset_def Let_def setThickness_def setShowPresetModal_def)
  then have "thickness (applyPreset (DEFAULT_PRESETS ! 1) st)
               = round_to (fmul (thicknessIn (DEFAULT_PRESETS ! 1)) MM_PER_IN) 3" .
  also have "\<dots> = rnd (51 / 1000)"
    unfolding t by (rule cast_apply)
  finally have a: "thickness (applyPreset (DEFAULT_PRESETS ! 1) st) = rnd (51 / 1000)" .
  have m: "fmul (rnd (2 / 1000)) MM_PER_IN = rnd (508 / 10000)"
    unfolding MM_PER_IN_def lit_0_002 lit_25_4 lit_0_0508 by (rule cast_mm)
  from a n t m show ?thesis by (intro conjI)
qed

theorem applyPreset_cast_mm_witness:
  "thickness (applyPreset (DEFAULT_PRESETS ! 1) (initial_state\<lparr>unit := Mm\<rparr>)) = rnd (51 / 1000)"
  using applyPreset_cast_mm [of "initial_state\<lparr>unit := Mm\<rparr>"] by simp

text \<open>
  C9. \<open>toCSV\<close> of no rows is exactly one line, the header: ten cells, each between
  double quotes, in the order Saved At, Name, Unit, OD, ID, Thickness, Length_in,
  Length_ft, Length_m, Length_yd, joined by commas, with no data row and no newline.
\<close>

theorem toCSV_empty:
  \<open>toCSV toISOString num_str [] =
     Inr ''"Saved At","Name","Unit","OD","ID","Thickness","Length_in","Length_ft","Length_m","Length_yd"''
   \<and> length csv_header = 10\<close>
  by (simp add: toCSV_def csv_header_def csv_cell_def)

text \<open>
  C10. For every preset list and every integer index \<open>k\<close>, \<open>removePreset\<close> with \<open>k\<close>
  out of range (negative, or at least the length of the list) leaves the preset list
  unchanged; with \<open>k\<close> in range it removes exactly the element at position \<open>k\<close> and
  keeps the others in their order.
\<close>

theorem removePreset_by_index:
  "presets (removePreset (Fin (of_int k)) st) =
     (if 0 \<le> k \<and> k < int (length (presets st))
      then take (nat k) (presets st) @ drop (Suc (nat k)) (presets st)
      else presets st)"
proof (cases "0 \<le> k")
  case True
  have "(\<lambda>(i, _::ThicknessPreset). strict_ne (Fin (of_nat i)) (Fin (of_int k)))
          = (\<lambda>(i, _). i \<noteq> nat k)"
    using True by (auto simp: strict_ne_index fun_eq_iff)
  then show ?thesis
    using True filter_index_ne [of "nat k" 0 "presets st"]
    by (auto simp: removePreset_def setPresets_def Let_def)
next
  case False
  have "(\<lambda>(i, _::ThicknessPreset). strict_ne (Fin (of_nat i)) (Fin (of_int k)))
          = (\<lambda>(i, _). True)"
    using False by (auto simp: strict_ne_index fun_eq_iff)
  then show ?thesis
    using False by (simp add: removePreset_def setPresets_def Let_def)
qed

theorem removePreset_by_index_witness:
  "presets (removePreset (Fin (of_int 1)) initial_state) =
     [DEFAULT_PRESETS ! 0, DEFAULT_PRESETS ! 2, DEFAULT_PRESETS ! 3]
   \<and> presets (removePreset (Fin (of_int 4)) initial_state) = DEFAULT_PRESETS
   \<and> presets (removePreset (Fin (of_int (- 1))) initial_state) = DEFAULT_PRESETS"
  using removePreset_by_index [of 1 initial_state]
        removePreset_by_index [of 4 initial_state]
        removePreset_by_index [of "- 1" initial_state]
  by (simp add: initial_state_def DEFAULT_PRESETS_def)

end
